theory Spec2Isabelle
  imports Complex_Main "HOL-Library.AList"
begin

section \<open>Data model of \<^verbatim>\<open>Endoscapes2023_Pipeline/inference.py\<close>\<close>

text \<open>
  Python integers are \<^typ>\<open>int\<close>. An exception is a value of \<open>py_error\<close>; a function
  that can raise returns \<open>py_error + 'a\<close>, with \<open>Inl\<close> for the exception.
\<close>

datatype py_error = KeyError | IndexError | TypeError | ValueError | UnboundLocalError

text \<open>
  A two-dimensional boolean array of the video's frame shape is represented by the set
  of the positions that hold \<open>True\<close>: \<^verbatim>\<open>np.logical_or\<close> is union and
  \<^verbatim>\<open>m.sum() == 0\<close> is emptiness. The masks the predictor returns carry a leading
  axis; they are lists of such planes.
\<close>

type_synonym plane = "(nat \<times> nat) set"
type_synonym bbox = "int list"
type_synonym points = "(int \<times> int) list"

text \<open>
  A Python dict is an association list with distinct keys in insertion order:
  \<^verbatim>\<open>d[k] = v\<close> replaces the value of a present key in place and appends an absent one,
  which is what \<^const>\<open>AList.update\<close> does.
\<close>

type_synonym ('k, 'v) dict = "('k \<times> 'v) list"

definition dict_get :: "('k, 'v) dict \<Rightarrow> 'k \<Rightarrow> 'v option" where
  "dict_get d k = map_of d k"

definition dict_set :: "('k, 'v) dict \<Rightarrow> 'k \<Rightarrow> 'v \<Rightarrow> ('k, 'v) dict" where
  "dict_set d k v = AList.update k v d"

text \<open>\<^verbatim>\<open>d.update(e)\<close>: every item of \<open>e\<close>, in order, is stored into \<open>d\<close>.\<close>

definition dict_update :: "('k, 'v) dict \<Rightarrow> ('k, 'v) dict \<Rightarrow> ('k, 'v) dict" where
  "dict_update d e = fold (\<lambda>(k, v) acc. dict_set acc k v) e d"

definition dict_keys :: "('k, 'v) dict \<Rightarrow> 'k set" where
  "dict_keys d = fst ` set d"

text \<open>An image record of the dataset (the field \<^verbatim>\<open>id\<close> is \<open>frame_id\<close> here).\<close>

record Frame =
  frame_id :: int
  video_id :: int
  order_in_video :: int
  path :: string
  is_det_keyframe :: bool

text \<open>
  An annotation of the dataset. The run-length encoding is not modelled: \<open>segmentation\<close>
  is the array that \<^verbatim>\<open>maskUtils.decode\<close> returns for it.
\<close>

record Annotation =
  ann_id :: int
  image_id :: int
  category_id :: int
  segmentation :: plane

text \<open>
  The global \<^verbatim>\<open>COCO_INFO\<close>: the image records, the annotations and the number of
  categories, \<^verbatim>\<open>len(COCO_INFO.cats)\<close>.
\<close>

record Coco =
  images :: "Frame list"
  annotations :: "Annotation list"
  num_cats :: nat

text \<open>
  \<^verbatim>\<open>COCO_INFO.loadAnns(COCO_INFO.getAnnIds(imgIds=i))\<close>: the annotations of image \<open>i\<close>,
  in dataset order. The list of ids is empty exactly when this list is.
\<close>

definition frame_anns :: "Coco \<Rightarrow> int \<Rightarrow> Annotation list" where
  "frame_anns coco i = filter (\<lambda>a. image_id a = i) (annotations coco)"

record ClipRange =
  start_idx :: int
  end_idx :: int

record PromptObject =
  mask :: plane
  bbox :: bbox
  points :: points
  obj_id :: int

text \<open>
  \<open>prompt_video_id\<close> and \<open>prompt_path\<close> are the fields \<^verbatim>\<open>video_id\<close> and \<^verbatim>\<open>path\<close>
  of the source's \<^verbatim>\<open>PromptInfo\<close>; \<^verbatim>\<open>str(video_id)\<close> is kept as the number it prints.
\<close>

record PromptInfo =
  prompt_objs :: "PromptObject list"
  frame_idx :: int
  prompt_type :: string
  prompt_video_id :: int
  prompt_path :: string

text \<open>
  The geometry helpers imported from \<^verbatim>\<open>utils\<close> are parameters of the model. The
  second argument of \<open>mask_to_points\<close> is the number of points, \<open>None\<close> where the
  source leaves it to the helper's default.
\<close>

record Utils =
  mask_to_masks :: "plane \<Rightarrow> plane list"
  mask_to_bbox :: "plane \<Rightarrow> bbox"
  mask_to_points :: "plane \<Rightarrow> int option \<Rightarrow> points"

section \<open>Helper functions\<close>

text \<open>\<^verbatim>\<open>get_dicts_by_field_value(data, "video_id", v)\<close> and
  \<^verbatim>\<open>sort_dicts_by_field(data, "order_in_video")\<close> (Python's sort is stable).\<close>

definition get_dicts_by_video_id :: "Frame list \<Rightarrow> int \<Rightarrow> Frame list" where
  "get_dicts_by_video_id data target_value = filter (\<lambda>item. video_id item = target_value) data"

definition sort_dicts_by_order :: "Frame list \<Rightarrow> Frame list" where
  "sort_dicts_by_order data = sort_key order_in_video data"

text \<open>\<^verbatim>\<open>find_prompt_frame\<close>: the first frame of the list, in list order, that passes
  the three tests.\<close>

fun find_prompt_frame :: "Coco \<Rightarrow> Frame list \<Rightarrow> ClipRange \<Rightarrow> Frame option" where
  "find_prompt_frame coco [] clip_range = None"
| "find_prompt_frame coco (frame # frames) clip_range =
     (if is_det_keyframe frame = False then find_prompt_frame coco frames clip_range
      else if order_in_video frame < start_idx clip_range
              \<or> order_in_video frame > end_idx clip_range
        then find_prompt_frame coco frames clip_range
      else if frame_anns coco (frame_id frame) = [] then find_prompt_frame coco frames clip_range
      else Some frame)"

text \<open>
  \<^verbatim>\<open>get_each_obj\<close>. The global \<^verbatim>\<open>OBJ_COUNT\<close> is passed in and returned. The inner
  loop runs over the sub-masks of one annotation, the outer loop over the annotations.
\<close>

fun masks_loop :: "Utils \<Rightarrow> nat \<Rightarrow> int \<Rightarrow> int \<Rightarrow> plane list \<Rightarrow> int
    \<Rightarrow> PromptObject list \<times> int" where
  "masks_loop u num_cat num_points cat [] OBJ_COUNT = ([], OBJ_COUNT)"
| "masks_loop u num_cat num_points cat (m # ms) OBJ_COUNT =
     (let obj = \<lparr>mask = m, bbox = mask_to_bbox u m,
                 points = mask_to_points u m (Some num_points),
                 obj_id = OBJ_COUNT * (int num_cat + 1) + cat\<rparr>;
          (objs, c) = masks_loop u num_cat num_points cat ms (OBJ_COUNT + 1)
      in (obj # objs, c))"

text \<open>The test \<^verbatim>\<open>cats is not None and ann["category_id"] not in cats\<close>.\<close>

definition filtered_out :: "int set option \<Rightarrow> int \<Rightarrow> bool" where
  "filtered_out cats cat = (case cats of None \<Rightarrow> False | Some cs \<Rightarrow> cat \<notin> cs)"

fun anns_loop :: "Utils \<Rightarrow> nat \<Rightarrow> int \<Rightarrow> int set option \<Rightarrow> Annotation list \<Rightarrow> int
    \<Rightarrow> PromptObject list \<times> int" where
  "anns_loop u num_cat num_points cats [] OBJ_COUNT = ([], OBJ_COUNT)"
| "anns_loop u num_cat num_points cats (ann # anns) OBJ_COUNT =
     (if filtered_out cats (category_id ann)
      then anns_loop u num_cat num_points cats anns OBJ_COUNT
      else
        (let (objs1, c1) = masks_loop u num_cat num_points (category_id ann)
                             (mask_to_masks u (segmentation ann)) OBJ_COUNT;
             (objs2, c2) = anns_loop u num_cat num_points cats anns c1
         in (objs1 @ objs2, c2)))"

definition get_each_obj :: "Utils \<Rightarrow> Coco \<Rightarrow> Frame \<Rightarrow> int \<Rightarrow> int set option \<Rightarrow> int
    \<Rightarrow> PromptObject list \<times> int" where
  "get_each_obj u coco prompt_frame num_points cats OBJ_COUNT =
     anns_loop u (num_cats coco) num_points cats
       (frame_anns coco (frame_id prompt_frame)) OBJ_COUNT"

text \<open>The category that \<^verbatim>\<open>save_as_coco_format\<close> reads back from an object id:
  \<^verbatim>\<open>remainder = key % (num_cat + 1)\<close>. Python's \<^verbatim>\<open>%\<close> and \<open>mod\<close> on \<^typ>\<open>int\<close>
  agree (the result has the sign of the divisor).\<close>

definition remainder :: "nat \<Rightarrow> int \<Rightarrow> int" where
  "remainder num_cat key = key mod (int num_cat + 1)"

section \<open>Python built-ins used by the planners\<close>

text \<open>\<^verbatim>\<open>range(i, n, step)\<close>: a zero step raises \<^verbatim>\<open>ValueError\<close>.\<close>

function range_up :: "int \<Rightarrow> int \<Rightarrow> int \<Rightarrow> int list" where
  "range_up i n step = (if 0 < step \<and> i < n then i # range_up (i + step) n step else [])"
  by pat_completeness auto
termination
  by (relation "measure (\<lambda>(i, n, step). nat (n - i))") auto

function range_down :: "int \<Rightarrow> int \<Rightarrow> int \<Rightarrow> int list" where
  "range_down i n step = (if step < 0 \<and> n < i then i # range_down (i + step) n step else [])"
  by pat_completeness auto
termination
  by (relation "measure (\<lambda>(i, n, step). nat (i - n))") auto

declare range_up.simps [simp del]
declare range_down.simps [simp del]

definition py_range :: "int \<Rightarrow> int \<Rightarrow> int \<Rightarrow> py_error + int list" where
  "py_range i n step =
     (if step = 0 then Inl ValueError
      else if 0 < step then Inr (range_up i n step)
      else Inr (range_down i n step))"

text \<open>\<^verbatim>\<open>xs[i:j]\<close> and \<^verbatim>\<open>xs[i]\<close>, negative indices counting from the end.\<close>

definition slice_bound :: "nat \<Rightarrow> int \<Rightarrow> nat" where
  "slice_bound n i = (if i < 0 then nat (max (i + int n) 0) else min (nat i) n)"

definition py_slice :: "'a list \<Rightarrow> int \<Rightarrow> int \<Rightarrow> 'a list" where
  "py_slice xs i j =
     (let a = slice_bound (length xs) i; b = slice_bound (length xs) j
      in take (b - a) (drop a xs))"

definition py_index :: "'a list \<Rightarrow> int \<Rightarrow> py_error + 'a" where
  "py_index xs i =
     (if 0 \<le> i \<and> i < int (length xs) then Inr (xs ! nat i)
      else if i < 0 \<and> - int (length xs) \<le> i then Inr (xs ! nat (int (length xs) + i))
      else Inl IndexError)"

section \<open>Clip Planner\<close>

text \<open>
  \<^verbatim>\<open>get_clip_prompts\<close> is a generator; the model returns the pairs it yields, in
  order, the clip ranges it warned about (with the video id of the message, read from
  \<^verbatim>\<open>frames[0]\<close>) and the final \<^verbatim>\<open>OBJ_COUNT\<close>. The consumer of the generator writes
  neither \<^verbatim>\<open>OBJ_COUNT\<close> nor the dataset, so running the generator to its end first
  yields the same pairs.
\<close>

type_synonym clip_item = "PromptInfo list \<times> ClipRange"

fun clip_loop :: "Utils \<Rightarrow> Coco \<Rightarrow> Frame list \<Rightarrow> string \<Rightarrow> int \<Rightarrow> int list \<Rightarrow> int
    \<Rightarrow> py_error + (clip_item list \<times> (ClipRange \<times> int) list \<times> int)" where
  "clip_loop u coco frames ptype clip_length [] OBJ_COUNT = Inr ([], [], OBJ_COUNT)"
| "clip_loop u coco frames ptype clip_length (s # starts) OBJ_COUNT =
     (let e = min (s + clip_length - 1) (int (length frames) - 1);
          clip_range = \<lparr>start_idx = s, end_idx = e\<rparr>
      in case find_prompt_frame coco frames clip_range of
           None \<Rightarrow>
             (case py_index frames 0 of
                Inl err \<Rightarrow> Inl err
              | Inr f0 \<Rightarrow>
                 (case clip_loop u coco frames ptype clip_length starts OBJ_COUNT of
                    Inl err \<Rightarrow> Inl err
                  | Inr (ys, ws, c) \<Rightarrow> Inr (ys, (clip_range, video_id f0) # ws, c)))
         | Some prompt_frame \<Rightarrow>
             (let (objs, c1) = get_each_obj u coco prompt_frame 1 None OBJ_COUNT;
                  info = \<lparr>prompt_objs = objs, frame_idx = order_in_video prompt_frame,
                          prompt_type = ptype, prompt_video_id = video_id prompt_frame,
                          prompt_path = path prompt_frame\<rparr>
              in case clip_loop u coco frames ptype clip_length starts c1 of
                   Inl err \<Rightarrow> Inl err
                 | Inr (ys, ws, c) \<Rightarrow> Inr (([info], clip_range) # ys, ws, c)))"

definition get_clip_prompts :: "Utils \<Rightarrow> Coco \<Rightarrow> Frame list \<Rightarrow> string \<Rightarrow> int option \<Rightarrow> int
    \<Rightarrow> py_error + (clip_item list \<times> (ClipRange \<times> int) list \<times> int)" where
  "get_clip_prompts u coco frames ptype clip_length OBJ_COUNT =
     (let l = (case clip_length of None \<Rightarrow> int (length frames) | Some l \<Rightarrow> l)
      in case py_range 0 (int (length frames)) l of
           Inl err \<Rightarrow> Inl err
         | Inr starts \<Rightarrow> clip_loop u coco frames ptype l starts OBJ_COUNT)"

text \<open>\<^verbatim>\<open>get_num_categories\<close>: the set of category ids annotated on a frame.\<close>

definition get_num_categories :: "Coco \<Rightarrow> Frame \<Rightarrow> int set" where
  "get_num_categories coco frame = category_id ` set (frame_anns coco (frame_id frame))"

text \<open>
  \<^verbatim>\<open>get_prompts_from_categories\<close>. \<^verbatim>\<open>previous_start_idx\<close> and
  \<^verbatim>\<open>previous_prompt_info\<close> start as \<^verbatim>\<open>None\<close>, so they are options, and so are the
  entries of the one tuple the function can append after the loop. Inside the loop,
  \<^verbatim>\<open>prompt_and_ranges.append\<close> is called with two arguments, which raises
  \<^verbatim>\<open>TypeError\<close> after the arguments are evaluated; the list is therefore still empty
  when the loop ends. \<^verbatim>\<open>get_each_obj\<close> returns a list, so the test
  \<^verbatim>\<open>prompt_objs is None\<close> is never true.
\<close>

type_synonym cat_item = "PromptInfo option list \<times> int option \<times> int"

fun cats_loop :: "Utils \<Rightarrow> Coco \<Rightarrow> Frame list \<Rightarrow> int set \<Rightarrow> int option \<Rightarrow> PromptInfo option
    \<Rightarrow> int \<Rightarrow> py_error + (int option \<times> PromptInfo option \<times> int)" where
  "cats_loop u coco [] existing_cats previous_start_idx previous_prompt_info OBJ_COUNT =
     Inr (previous_start_idx, previous_prompt_info, OBJ_COUNT)"
| "cats_loop u coco (frame # frames) existing_cats previous_start_idx previous_prompt_info
       OBJ_COUNT =
     (if is_det_keyframe frame = False
      then cats_loop u coco frames existing_cats previous_start_idx previous_prompt_info
             OBJ_COUNT
      else if get_num_categories coco frame \<subseteq> existing_cats
      then cats_loop u coco frames existing_cats previous_start_idx previous_prompt_info
             OBJ_COUNT
      else
        (let diff_cats = get_num_categories coco frame - existing_cats;
             existing_cats' = existing_cats \<union> diff_cats;
             (objs, c1) = get_each_obj u coco frame 1 None OBJ_COUNT;
             prompt_frame_idx = order_in_video frame;
             prompt_info = \<lparr>prompt_objs = objs, frame_idx = prompt_frame_idx,
                            prompt_type = ''points'', prompt_video_id = video_id frame,
                            prompt_path = path frame\<rparr>
         in if previous_prompt_info = None
            then cats_loop u coco frames existing_cats' (Some prompt_frame_idx)
                   (Some prompt_info) c1
            else Inl TypeError))"

definition get_prompts_from_categories :: "Utils \<Rightarrow> Coco \<Rightarrow> Frame list \<Rightarrow> int
    \<Rightarrow> py_error + (cat_item list \<times> int)" where
  "get_prompts_from_categories u coco frames OBJ_COUNT =
     (case cats_loop u coco frames {} None None OBJ_COUNT of
        Inl err \<Rightarrow> Inl err
      | Inr (previous_start_idx, previous_prompt_info, c) \<Rightarrow>
          Inr (if previous_start_idx \<noteq> Some (int (length frames) - 1)
               then [([previous_prompt_info], previous_start_idx, int (length frames) - 1)]
               else [], c))"

section \<open>Clip Processor\<close>

text \<open>
  The segmentation model is a parameter. Its inference state is what the clip processor
  gave it: the staged frames of the clip and, for every prompt batch, the clip-relative
  frame index, the prompt kind and the objects. \<open>propagate_in_video st reverse\<close> is the
  stream of \<^verbatim>\<open>(out_frame_idx, out_obj_ids, out_mask_logits)\<close> that the model yields;
  the forward call is the one made after the reverse call. A logit tensor is a value of
  the type parameter; \<open>mask_of\<close> stands for \<^verbatim>\<open>(l > 0.0).cpu().numpy()\<close> and
  \<open>score_of\<close> for \<^verbatim>\<open>torch.sigmoid(l).max().item()\<close>.
\<close>

type_synonym inference_state = "Frame list \<times> (int \<times> string \<times> PromptObject list) list"
type_synonym 'l yield = "int \<times> int list \<times> 'l list"

record 'l Predictor =
  propagate_in_video :: "inference_state \<Rightarrow> bool \<Rightarrow> 'l yield list"
  mask_of :: "'l \<Rightarrow> plane list"
  score_of :: "'l \<Rightarrow> real"

record Seg =
  seg_mask :: "plane list"
  seg_score :: real

text \<open>On a mask with its leading axis: \<^verbatim>\<open>m.sum() == 0\<close> and
  \<^verbatim>\<open>np.logical_or.reduce(m, axis=0)\<close>.\<close>

definition sum_is_zero :: "plane list \<Rightarrow> bool" where
  "sum_is_zero planes = (\<Union> (set planes) = {})"

definition logical_or_reduce :: "plane list \<Rightarrow> plane" where
  "logical_or_reduce planes = \<Union> (set planes)"

type_synonym video_segment = "(int, Seg) dict"
type_synonym video_segments = "(int, video_segment) dict"

text \<open>The dict comprehension over \<^verbatim>\<open>enumerate(out_obj_ids)\<close>; indexing the logits
  beyond their length raises \<^verbatim>\<open>IndexError\<close>.\<close>

fun frame_objs :: "'l Predictor \<Rightarrow> int list \<Rightarrow> 'l list \<Rightarrow> nat \<Rightarrow> video_segment
    \<Rightarrow> py_error + video_segment" where
  "frame_objs p [] logits i d = Inr d"
| "frame_objs p (out_obj_id # ids) logits i d =
     (if i < length logits
      then frame_objs p ids logits (Suc i)
             (dict_set d out_obj_id
                \<lparr>seg_mask = mask_of p (logits ! i), seg_score = score_of p (logits ! i)\<rparr>)
      else Inl IndexError)"

text \<open>One of the two loops of \<^verbatim>\<open>predict_on_video\<close>: every yielded frame is written
  at \<^verbatim>\<open>out_frame_idx + start_idx\<close>.\<close>

fun write_pass :: "'l Predictor \<Rightarrow> int \<Rightarrow> 'l yield list \<Rightarrow> video_segments
    \<Rightarrow> py_error + video_segments" where
  "write_pass p start [] vs = Inr vs"
| "write_pass p start ((out_frame_idx, out_obj_ids, out_mask_logits) # ys) vs =
     (case frame_objs p out_obj_ids out_mask_logits 0 [] of
        Inl err \<Rightarrow> Inl err
      | Inr d \<Rightarrow> write_pass p start ys (dict_set vs (out_frame_idx + start) d))"

definition predict_on_video :: "'l Predictor \<Rightarrow> inference_state \<Rightarrow> int
    \<Rightarrow> py_error + video_segments" where
  "predict_on_video p st start =
     (case write_pass p start (propagate_in_video p st True) [] of
        Inl err \<Rightarrow> Inl err
      | Inr vs \<Rightarrow> write_pass p start (propagate_in_video p st False) vs)"

text \<open>
  \<^verbatim>\<open>add_prompt\<close> returns \<^verbatim>\<open>out_obj_ids\<close> and \<^verbatim>\<open>out_mask_logits\<close>, which are bound
  only by a matching \<^verbatim>\<open>case\<close> inside the loop: with no object, or with a prompt kind
  that is none of the three, the \<^verbatim>\<open>return\<close> raises \<^verbatim>\<open>UnboundLocalError\<close>.
\<close>

definition add_prompt :: "PromptObject list \<Rightarrow> string \<Rightarrow> py_error + unit" where
  "add_prompt objs ptype =
     (if objs = [] \<or> ptype \<notin> {''points'', ''bbox'', ''mask''}
      then Inl UnboundLocalError else Inr ())"

fun add_prompts :: "PromptInfo list \<Rightarrow> py_error + unit" where
  "add_prompts [] = Inr ()"
| "add_prompts (prompt_info # rest) =
     (case add_prompt (prompt_objs prompt_info) (prompt_type prompt_info) of
        Inl err \<Rightarrow> Inl err
      | Inr _ \<Rightarrow> add_prompts rest)"

definition process_video_clip :: "'l Predictor \<Rightarrow> Frame list \<Rightarrow> PromptInfo list \<Rightarrow> ClipRange
    \<Rightarrow> py_error + video_segments" where
  "process_video_clip p frames clip_prompts clip_range =
     (let s = start_idx clip_range; e = end_idx clip_range;
          staged = py_slice frames s (e + 1)
      in case add_prompts clip_prompts of
           Inl err \<Rightarrow> Inl err
         | Inr _ \<Rightarrow>
             predict_on_video p
               (staged,
                map (\<lambda>prompt_info. (frame_idx prompt_info - s, prompt_type prompt_info,
                                      prompt_objs prompt_info)) clip_prompts)
               s)"

section \<open>Video Orchestrator\<close>

text \<open>\<^verbatim>\<open>get_obj_from_masks\<close>; \<^verbatim>\<open>np.squeeze(m, axis=0)\<close> raises \<^verbatim>\<open>ValueError\<close> unless
  the leading axis has length one.\<close>

fun get_obj_from_masks :: "Utils \<Rightarrow> video_segment \<Rightarrow> py_error + PromptObject list" where
  "get_obj_from_masks u [] = Inr []"
| "get_obj_from_masks u ((oid, obj_seg) # items) =
     (if sum_is_zero (seg_mask obj_seg) then get_obj_from_masks u items
      else case seg_mask obj_seg of
             [m] \<Rightarrow>
               (case get_obj_from_masks u items of
                  Inl err \<Rightarrow> Inl err
                | Inr objs \<Rightarrow>
                    Inr (map (\<lambda>sub. \<lparr>mask = sub, bbox = mask_to_bbox u sub,
                                      points = mask_to_points u sub None, obj_id = oid\<rparr>)
                           (mask_to_masks u m) @ objs))
           | _ \<Rightarrow> Inl ValueError)"

text \<open>
  The state of the loop of \<^verbatim>\<open>process_singel_video\<close>: the running
  \<^verbatim>\<open>video_segments\<close>, \<^verbatim>\<open>previous_frame_mask_prompt\<close>, the global
  \<^verbatim>\<open>PROMPT_INFO\<close>, and the calls made to \<^verbatim>\<open>process_video_clip\<close>, in order.
\<close>

record run_state =
  segments :: video_segments
  previous_frame_mask_prompt :: "PromptInfo option"
  PROMPT_INFO :: "PromptInfo list"
  submitted :: "clip_item list"

definition clip_body :: "Utils \<Rightarrow> 'l Predictor \<Rightarrow> Frame list \<Rightarrow> string \<Rightarrow> bool \<Rightarrow> clip_item
    \<Rightarrow> run_state \<Rightarrow> py_error + run_state" where
  "clip_body u p frames ptype variable_cats item st =
     (let clip_range = snd item;
          clip_prompts =
            (if variable_cats \<and> previous_frame_mask_prompt st \<noteq> None
             then fst item @ [the (previous_frame_mask_prompt st)] else fst item);
          plog = PROMPT_INFO st @ clip_prompts;
          calls = submitted st @ [(clip_prompts, clip_range)]
      in case process_video_clip p frames clip_prompts clip_range of
           Inl err \<Rightarrow> Inl err
         | Inr clip_segments \<Rightarrow>
            (let vs = dict_update (segments st) clip_segments
             in if variable_cats then
                  (case dict_get vs (end_idx clip_range) of
                     None \<Rightarrow> Inl KeyError
                   | Some seg \<Rightarrow>
                      (case get_obj_from_masks u seg of
                         Inl err \<Rightarrow> Inl err
                       | Inr objs \<Rightarrow>
                          (case py_index frames 0 of
                             Inl err \<Rightarrow> Inl err
                           | Inr f0 \<Rightarrow>
                              (case py_index frames (end_idx clip_range) of
                                 Inl err \<Rightarrow> Inl err
                               | Inr fe \<Rightarrow>
                                  Inr \<lparr>segments = vs,
                                       previous_frame_mask_prompt =
                                         Some \<lparr>prompt_objs = objs,
                                               frame_idx = end_idx clip_range,
                                               prompt_type = ptype,
                                               prompt_video_id = video_id f0,
                                               prompt_path = path fe\<rparr>,
                                       PROMPT_INFO = plog, submitted = calls\<rparr>))))
                else Inr \<lparr>segments = vs,
                          previous_frame_mask_prompt = previous_frame_mask_prompt st,
                          PROMPT_INFO = plog, submitted = calls\<rparr>))"

text \<open>
  The tuples of \<^verbatim>\<open>get_clip_prompts\<close> are used as they are (\<open>narrow\<close> is \<open>Inr\<close>).
  A tuple of the category planner holds \<^verbatim>\<open>None\<close> where no keyframe introduced a
  category; on it \<^verbatim>\<open>process_video_clip\<close> raises \<^verbatim>\<open>TypeError\<close>, at
  \<^verbatim>\<open>prompt_info["prompt_objs"]\<close> or at \<^verbatim>\<open>frame_idx - start_idx\<close>, before the model
  is asked for anything.
\<close>

fun narrow_item :: "cat_item \<Rightarrow> py_error + clip_item" where
  "narrow_item (infos, s, e) =
     (if None \<in> set infos \<or> s = None then Inl TypeError
      else Inr (map the infos, \<lparr>start_idx = the s, end_idx = e\<rparr>))"

fun process_clips :: "Utils \<Rightarrow> 'l Predictor \<Rightarrow> Frame list \<Rightarrow> string \<Rightarrow> bool
    \<Rightarrow> ('i \<Rightarrow> py_error + clip_item) \<Rightarrow> 'i list \<Rightarrow> run_state \<Rightarrow> py_error + run_state" where
  "process_clips u p frames ptype variable_cats narrow [] st = Inr st"
| "process_clips u p frames ptype variable_cats narrow (x # xs) st =
     (case narrow x of
        Inl err \<Rightarrow> Inl err
      | Inr item \<Rightarrow>
         (case clip_body u p frames ptype variable_cats item st of
            Inl err \<Rightarrow> Inl err
          | Inr st' \<Rightarrow> process_clips u p frames ptype variable_cats narrow xs st'))"

text \<open>\<^verbatim>\<open>process_singel_video\<close>: \<^verbatim>\<open>OBJ_COUNT\<close> is reset to zero; \<open>plog\<close> is the global
  \<^verbatim>\<open>PROMPT_INFO\<close> of the run so far.\<close>

definition process_singel_video :: "Utils \<Rightarrow> 'l Predictor \<Rightarrow> Coco \<Rightarrow> PromptInfo list
    \<Rightarrow> Frame list \<Rightarrow> string \<Rightarrow> int option \<Rightarrow> bool \<Rightarrow> py_error + run_state" where
  "process_singel_video u p coco plog frames ptype clip_length variable_cats =
     (let OBJ_COUNT = 0;
          st0 = \<lparr>segments = [], previous_frame_mask_prompt = None, PROMPT_INFO = plog,
                 submitted = []\<rparr>
      in if variable_cats then
           (case get_prompts_from_categories u coco frames OBJ_COUNT of
              Inl err \<Rightarrow> Inl err
            | Inr (gen, c) \<Rightarrow>
                process_clips u p frames ptype variable_cats narrow_item gen st0)
         else
           (case get_clip_prompts u coco frames ptype clip_length OBJ_COUNT of
              Inl err \<Rightarrow> Inl err
            | Inr (gen, ws, c) \<Rightarrow>
                process_clips u p frames ptype variable_cats Inr gen st0))"

section \<open>Dataset Orchestrator and Mask Reassembler\<close>

text \<open>\<^verbatim>\<open>process_all_videos\<close>; \<open>vids\<close> is \<^verbatim>\<open>VIDEO_ID_SET\<close> in the order in which the
  set is iterated. The frames of a video are taken in dataset order.\<close>

fun videos_pass :: "Utils \<Rightarrow> 'l Predictor \<Rightarrow> Coco \<Rightarrow> string \<Rightarrow> int option \<Rightarrow> bool \<Rightarrow> int list
    \<Rightarrow> (int, video_segments) dict \<Rightarrow> PromptInfo list
    \<Rightarrow> py_error + ((int, video_segments) dict \<times> PromptInfo list)" where
  "videos_pass u p coco ptype clip_length variable_cats [] all_video_segments plog =
     Inr (all_video_segments, plog)"
| "videos_pass u p coco ptype clip_length variable_cats (vid # vids) all_video_segments plog =
     (let frames = get_dicts_by_video_id (images coco) vid
      in case process_singel_video u p coco plog frames ptype clip_length variable_cats of
           Inl err \<Rightarrow> Inl err
         | Inr st \<Rightarrow>
             videos_pass u p coco ptype clip_length variable_cats vids
               (dict_set all_video_segments vid (segments st)) (PROMPT_INFO st))"

definition process_all_videos :: "Utils \<Rightarrow> 'l Predictor \<Rightarrow> Coco \<Rightarrow> int list \<Rightarrow> string
    \<Rightarrow> int option \<Rightarrow> bool \<Rightarrow> py_error + ((int, video_segments) dict \<times> PromptInfo list)" where
  "process_all_videos u p coco VIDEO_ID_SET ptype clip_length variable_cats =
     videos_pass u p coco ptype clip_length variable_cats VIDEO_ID_SET [] []"

text \<open>An output record; \<open>pred_segmentation\<close> is the mask that is run-length encoded.\<close>

record Prediction =
  pred_image_id :: int
  pred_category_id :: int
  pred_segmentation :: plane
  pred_bbox :: bbox
  pred_iscrowd :: int
  pred_score :: real

text \<open>
  The first inner loop of \<^verbatim>\<open>save_as_coco_format\<close>. The local \<^verbatim>\<open>score\<close> is assigned
  in every iteration and read after the loop; it is unbound (\<open>None\<close>) until the first
  assignment of the call.
\<close>

fun merge_loop :: "nat \<Rightarrow> (int \<times> Seg) list \<Rightarrow> (int, plane) dict \<Rightarrow> real option
    \<Rightarrow> (int, plane) dict \<times> real option" where
  "merge_loop num_cat [] merged_mask score = (merged_mask, score)"
| "merge_loop num_cat ((key, mask_info) # items) merged_mask score =
     (let r = remainder num_cat key;
          m_mask = logical_or_reduce (seg_mask mask_info);
          score' = Some (seg_score mask_info)
      in merge_loop num_cat items
           (case dict_get merged_mask r of
              None \<Rightarrow> dict_set merged_mask r m_mask
            | Some old \<Rightarrow> dict_set merged_mask r (old \<union> m_mask))
           score')"

text \<open>The second inner loop: one record for every category whose merged mask is not
  empty, all with the value \<^verbatim>\<open>score\<close> has at that point.\<close>

fun emit_loop :: "Utils \<Rightarrow> Frame \<Rightarrow> (int \<times> plane) list \<Rightarrow> real option
    \<Rightarrow> py_error + Prediction list" where
  "emit_loop u frame [] score = Inr []"
| "emit_loop u frame ((key, m) # items) score =
     (if m = {} then emit_loop u frame items score
      else case score of
             None \<Rightarrow> Inl UnboundLocalError
           | Some sc \<Rightarrow>
              (case emit_loop u frame items score of
                 Inl err \<Rightarrow> Inl err
               | Inr anns \<Rightarrow>
                  Inr (\<lparr>pred_image_id = frame_id frame, pred_category_id = key,
                        pred_segmentation = m, pred_bbox = mask_to_bbox u m,
                        pred_iscrowd = 0, pred_score = sc\<rparr> # anns)))"

text \<open>The loop over the frames of one video: a keyframe whose ordinal is not a key of
  the video's segments raises \<^verbatim>\<open>KeyError\<close>.\<close>

fun frames_loop :: "Utils \<Rightarrow> nat \<Rightarrow> video_segments \<Rightarrow> Frame list \<Rightarrow> real option
    \<Rightarrow> py_error + (Prediction list \<times> real option)" where
  "frames_loop u num_cat vs [] score = Inr ([], score)"
| "frames_loop u num_cat vs (frame # frames) score =
     (if is_det_keyframe frame = False then frames_loop u num_cat vs frames score
      else case dict_get vs (order_in_video frame) of
             None \<Rightarrow> Inl KeyError
           | Some seg \<Rightarrow>
              (let (merged_mask, score') = merge_loop num_cat seg [] score
               in case emit_loop u frame merged_mask score' of
                    Inl err \<Rightarrow> Inl err
                  | Inr anns \<Rightarrow>
                     (case frames_loop u num_cat vs frames score' of
                        Inl err \<Rightarrow> Inl err
                      | Inr (rest, sc) \<Rightarrow> Inr (anns @ rest, sc))))"

fun save_loop :: "Utils \<Rightarrow> Coco \<Rightarrow> (int, video_segments) dict \<Rightarrow> int list \<Rightarrow> real option
    \<Rightarrow> py_error + Prediction list" where
  "save_loop u coco all_video_segments [] score = Inr []"
| "save_loop u coco all_video_segments (vid # vids) score =
     (case dict_get all_video_segments vid of
        None \<Rightarrow> Inl KeyError
      | Some vs \<Rightarrow>
         (let frames = sort_dicts_by_order (get_dicts_by_video_id (images coco) vid)
          in case frames_loop u (num_cats coco) vs frames score of
               Inl err \<Rightarrow> Inl err
             | Inr (anns, score') \<Rightarrow>
                (case save_loop u coco all_video_segments vids score' of
                   Inl err \<Rightarrow> Inl err
                 | Inr rest \<Rightarrow> Inr (anns @ rest))))"

text \<open>\<^verbatim>\<open>save_as_coco_format\<close>, up to the list \<^verbatim>\<open>coco_annotations\<close> that is written to
  the file.\<close>

definition save_as_coco_format :: "Utils \<Rightarrow> Coco \<Rightarrow> int list \<Rightarrow> (int, video_segments) dict
    \<Rightarrow> int list option \<Rightarrow> py_error + Prediction list" where
  "save_as_coco_format u coco VIDEO_ID_SET all_video_segments save_video_list =
     save_loop u coco all_video_segments
       (case save_video_list of None \<Rightarrow> VIDEO_ID_SET | Some l \<Rightarrow> l) None"

section \<open>Notions used to state the properties\<close>

text \<open>The category of every instance that \<^verbatim>\<open>get_each_obj\<close> emits, in emission order:
  one per sub-mask of every annotation that passes the category filter.\<close>

definition instance_categories :: "Utils \<Rightarrow> int set option \<Rightarrow> Annotation list \<Rightarrow> int list" where
  "instance_categories u cats anns =
     concat (map (\<lambda>a. replicate (length (mask_to_masks u (segmentation a))) (category_id a))
               (filter (\<lambda>a. \<not> filtered_out cats (category_id a)) anns))"

text \<open>The instance sequence number that an object id carries.\<close>

definition seq_no :: "nat \<Rightarrow> PromptObject \<Rightarrow> int" where
  "seq_no num_cat obj = obj_id obj div (int num_cat + 1)"

text \<open>All prompt objects of the tuples of a planner, in order.\<close>

definition planned_objs :: "clip_item list \<Rightarrow> PromptObject list" where
  "planned_objs gen = concat (map prompt_objs (concat (map fst gen)))"

definition cat_planned_objs :: "cat_item list \<Rightarrow> PromptObject list" where
  "cat_planned_objs gen =
     concat (map (\<lambda>i. case i of None \<Rightarrow> [] | Some info \<Rightarrow> prompt_objs info)
               (concat (map fst gen)))"

text \<open>The keyframes that introduce a category, walking the frames in order with the
  running set of the categories seen so far.\<close>

fun introducers :: "Coco \<Rightarrow> Frame list \<Rightarrow> int set \<Rightarrow> Frame list" where
  "introducers coco [] seen = []"
| "introducers coco (f # fs) seen =
     (if is_det_keyframe f \<and> \<not> get_num_categories coco f \<subseteq> seen
      then f # introducers coco fs (seen \<union> get_num_categories coco f)
      else introducers coco fs seen)"

text \<open>A clip range contains a keyframe with at least one annotation.\<close>

definition has_annotated_keyframe :: "Coco \<Rightarrow> Frame list \<Rightarrow> ClipRange \<Rightarrow> bool" where
  "has_annotated_keyframe coco frames r =
     (\<exists>f \<in> set frames. is_det_keyframe f \<and> start_idx r \<le> order_in_video f
        \<and> order_in_video f \<le> end_idx r \<and> frame_anns coco (frame_id f) \<noteq> [])"

text \<open>The clip ranges that the loop of \<^verbatim>\<open>get_clip_prompts\<close> goes through for \<open>n\<close>
  frames and clip length \<open>l\<close>, before any is skipped.\<close>

definition clip_range_at :: "int \<Rightarrow> int \<Rightarrow> int \<Rightarrow> ClipRange" where
  "clip_range_at n l s = \<lparr>start_idx = s, end_idx = min (s + l - 1) (n - 1)\<rparr>"

definition clip_ranges :: "int \<Rightarrow> int \<Rightarrow> ClipRange list" where
  "clip_ranges n l = map (clip_range_at n l) (range_up 0 n l)"

text \<open>
  A list of ranges tiles \<open>[0, n - 1]\<close>: no range is empty, each range starts right after
  the one before it ends, the first starts at 0 and the last ends at \<open>n - 1\<close>. For
  \<open>n = 0\<close> the tiling is the empty list.
\<close>

fun contiguous :: "ClipRange list \<Rightarrow> bool" where
  "contiguous [] = True"
| "contiguous [r] = (start_idx r \<le> end_idx r)"
| "contiguous (r # r' # rs) =
     (start_idx r \<le> end_idx r \<and> start_idx r' = end_idx r + 1 \<and> contiguous (r' # rs))"

definition tiles :: "int \<Rightarrow> ClipRange list \<Rightarrow> bool" where
  "tiles n rs =
     (if n \<le> 0 then rs = []
      else rs \<noteq> [] \<and> start_idx (hd rs) = 0 \<and> end_idx (last rs) = n - 1 \<and> contiguous rs)"

text \<open>The segmentation model yields only frames of the clip that was staged for it.\<close>

definition well_behaved :: "'l Predictor \<Rightarrow> bool" where
  "well_behaved p =
     (\<forall>st reverse. \<forall>y \<in> set (propagate_in_video p st reverse).
        0 \<le> fst y \<and> fst y < int (length (fst st)))"

section \<open>A small dataset for the concrete instances\<close>

text \<open>Geometry helpers under which every mask is a single component.\<close>

definition u0 :: Utils where
  "u0 = \<lparr>mask_to_masks = (\<lambda>m. [m]), mask_to_bbox = (\<lambda>m. []), mask_to_points = (\<lambda>m k. [])\<rparr>"

definition frame_at :: "int \<Rightarrow> bool \<Rightarrow> Frame" where
  "frame_at i key = \<lparr>frame_id = 100 + i, video_id = 1, order_in_video = i, path = ''f'',
                      is_det_keyframe = key\<rparr>"

definition ann_on :: "int \<Rightarrow> int \<Rightarrow> Annotation" where
  "ann_on i cat = \<lparr>ann_id = i, image_id = 100 + i, category_id = cat, segmentation = {(0, 0)}\<rparr>"

text \<open>A video of six frames with one keyframe, at ordinal 1, annotated with one
  category.\<close>

definition frames6 :: "Frame list" where
  "frames6 = [frame_at 0 False, frame_at 1 True, frame_at 2 False,
              frame_at 3 False, frame_at 4 False, frame_at 5 False]"

definition coco6 :: Coco where
  "coco6 = \<lparr>images = frames6, annotations = [ann_on 1 1], num_cats = 1\<rparr>"

text \<open>A video of three frames whose first two are keyframes, annotated with different
  categories.\<close>

definition frames3 :: "Frame list" where
  "frames3 = [frame_at 0 True, frame_at 1 True, frame_at 2 False]"

definition coco3 :: Coco where
  "coco3 = \<lparr>images = frames3, annotations = [ann_on 0 1, ann_on 1 2], num_cats = 2\<rparr>"

text \<open>
  A model for the concrete instances. It tracks the object ids of the prompts it was
  given; the anchor is the frame of the first prompt batch. The reverse pass yields the
  frames from the anchor down to the first one with logit 1, the forward pass the frames
  from the anchor up to the last one with logit 2. A logit \<open>l\<close> gives a one-pixel mask
  and the score \<open>l / 4\<close>.
\<close>

fun sweep :: "int \<Rightarrow> Frame list \<Rightarrow> int list \<Rightarrow> int \<Rightarrow> int yield list" where
  "sweep i [] ids l = []"
| "sweep i (f # fs) ids l = (i, ids, map (\<lambda>_. l) ids) # sweep (i + 1) fs ids l"

definition tracked_ids :: "inference_state \<Rightarrow> int list" where
  "tracked_ids st = concat (map (\<lambda>(i, t, objs). map obj_id objs) (snd st))"

definition anchor :: "inference_state \<Rightarrow> int" where
  "anchor st = (case snd st of [] \<Rightarrow> 0 | (i, t, objs) # rest \<Rightarrow> i)"

definition p0 :: "int Predictor" where
  "p0 = \<lparr>propagate_in_video =
            (\<lambda>st reverse.
               if reverse
               then rev (filter (\<lambda>(f, ids, lg). f \<le> anchor st)
                           (sweep 0 (fst st) (tracked_ids st) 1))
               else filter (\<lambda>(f, ids, lg). anchor st \<le> f)
                      (sweep 0 (fst st) (tracked_ids st) 2)),
          mask_of = (\<lambda>l. [{(0, nat l)}]),
          score_of = (\<lambda>l. real_of_int l / 4)\<rparr>"

text \<open>The tuples that the fixed-length planner yields for the three-frame video with
  clips of one frame.\<close>

definition plan3 :: "clip_item list" where
  "plan3 =
     [([\<lparr>prompt_objs = [\<lparr>mask = {(0, 0)}, bbox = [], points = [], obj_id = 1\<rparr>],
         frame_idx = 0, prompt_type = ''points'', prompt_video_id = 1,
         prompt_path = ''f''\<rparr>], \<lparr>start_idx = 0, end_idx = 0\<rparr>),
      ([\<lparr>prompt_objs = [\<lparr>mask = {(0, 0)}, bbox = [], points = [], obj_id = 5\<rparr>],
         frame_idx = 1, prompt_type = ''points'', prompt_video_id = 1,
         prompt_path = ''f''\<rparr>], \<lparr>start_idx = 1, end_idx = 1\<rparr>)]"

text \<open>An inference state of three staged frames with one object prompted at the middle
  frame, and the segments the clip processor returns for it.\<close>

definition st3 :: inference_state where
  "st3 = (take 3 frames6,
          [(1, ''points'', [\<lparr>mask = {(0, 0)}, bbox = [], points = [], obj_id = 1\<rparr>])])"

definition segs3 :: video_segments where
  "segs3 = [(1, [(1, \<lparr>seg_mask = [{(0, 2)}], seg_score = 1 / 2\<rparr>)]),
            (0, [(1, \<lparr>seg_mask = [{(0, 1)}], seg_score = 1 / 4\<rparr>)]),
            (2, [(1, \<lparr>seg_mask = [{(0, 2)}], seg_score = 1 / 2\<rparr>)])]"

text \<open>The tuples that the fixed-length planner yields for the six-frame video with clips
  of three frames, and for the three-frame video taken as one clip.\<close>

definition plan6 :: "clip_item list" where
  "plan6 =
     [([\<lparr>prompt_objs = [\<lparr>mask = {(0, 0)}, bbox = [], points = [], obj_id = 1\<rparr>],
         frame_idx = 1, prompt_type = ''points'', prompt_video_id = 1,
         prompt_path = ''f''\<rparr>], \<lparr>start_idx = 0, end_idx = 2\<rparr>)]"

definition plan3_whole :: "clip_item list" where
  "plan3_whole =
     [([\<lparr>prompt_objs = [\<lparr>mask = {(0, 0)}, bbox = [], points = [], obj_id = 1\<rparr>],
         frame_idx = 0, prompt_type = ''points'', prompt_video_id = 1,
         prompt_path = ''f''\<rparr>], \<lparr>start_idx = 0, end_idx = 2\<rparr>)]"

text \<open>The ranges of the tuples of the category planner that have a start index.\<close>

definition cat_ranges :: "cat_item list \<Rightarrow> ClipRange list" where
  "cat_ranges gen =
     concat (map (\<lambda>(infos, s, e). case s of None \<Rightarrow> []
                                      | Some a \<Rightarrow> [\<lparr>start_idx = a, end_idx = e\<rparr>]) gen)"

text \<open>The tuple that the category planner returns for the six-frame video, and a
  two-frame video whose first frame is its only keyframe, with the tuple returned for
  it.\<close>

definition info_at :: "int \<Rightarrow> int \<Rightarrow> PromptInfo" where
  "info_at i oid =
     \<lparr>prompt_objs = [\<lparr>mask = {(0, 0)}, bbox = [], points = [], obj_id = oid\<rparr>],
      frame_idx = i, prompt_type = ''points'', prompt_video_id = 1, prompt_path = ''f''\<rparr>"

definition cplan6 :: "cat_item list" where
  "cplan6 = [([Some (info_at 1 1)], Some 1, 5)]"

definition frames2 :: "Frame list" where
  "frames2 = [frame_at 0 True, frame_at 1 False]"

definition coco2 :: Coco where
  "coco2 = \<lparr>images = frames2, annotations = [ann_on 0 1], num_cats = 1\<rparr>"

definition cplan2 :: "cat_item list" where
  "cplan2 = [([Some (info_at 0 1)], Some 0, 1)]"

text \<open>A frame qualifies as the prompt frame of a clip range.\<close>

definition qualifies :: "Coco \<Rightarrow> ClipRange \<Rightarrow> Frame \<Rightarrow> bool" where
  "qualifies coco r f =
     (is_det_keyframe f \<and> start_idx r \<le> order_in_video f \<and> order_in_video f \<le> end_idx r
      \<and> frame_anns coco (frame_id f) \<noteq> [])"

text \<open>The three-frame dataset with its image records listed out of order.\<close>

definition coco3r :: Coco where
  "coco3r = \<lparr>images = [frame_at 1 True, frame_at 0 True, frame_at 2 False],
             annotations = [ann_on 0 1, ann_on 1 2], num_cats = 2\<rparr>"

text \<open>A one-frame video whose keyframe holds two instances of different categories
  (object id 1 is category 1, object id 5 is category 2, with two categories).\<close>

definition coco1 :: Coco where
  "coco1 = \<lparr>images = [frame_at 0 True], annotations = [], num_cats = 2\<rparr>"

definition segs1 :: "(int, video_segments) dict" where
  "segs1 = [(1, [(0, [(1, \<lparr>seg_mask = [{(0, 0)}], seg_score = 9 / 10\<rparr>),
                      (5, \<lparr>seg_mask = [{(1, 1)}], seg_score = 1 / 2\<rparr>)])])]"

text \<open>The union of the masks of the instances of a frame's segment that decode to a
  category.\<close>

definition category_mask :: "nat \<Rightarrow> video_segment \<Rightarrow> int \<Rightarrow> plane" where
  "category_mask n seg c =
     \<Union> (set (map (\<lambda>(k, s). logical_or_reduce (seg_mask s))
                (filter (\<lambda>(k, s). remainder n k = c) seg)))"

section \<open>Object identity\<close>

lemma masks_loop_count: "snd (masks_loop u n np cat ms c) = c + int (length ms)"
  by (induction ms arbitrary: c) (simp_all add: case_prod_unfold Let_def)

lemma masks_loop_remainder:
  "0 \<le> cat \<Longrightarrow> cat \<le> int n \<Longrightarrow>
   map (\<lambda>obj. remainder n (obj_id obj)) (fst (masks_loop u n np cat ms c))
     = replicate (length ms) cat"
  by (induction ms arbitrary: c) (simp_all add: case_prod_unfold Let_def remainder_def)

lemma masks_loop_seq:
  "0 \<le> cat \<Longrightarrow> cat \<le> int n \<Longrightarrow>
   map (seq_no n) (fst (masks_loop u n np cat ms c)) = [c..c + int (length ms) - 1]"
proof (induction ms arbitrary: c)
  case Nil
  then show ?case by simp
next
  case (Cons m ms)
  have "[c..c + int (length (m # ms)) - 1] = c # [c + 1..c + 1 + int (length ms) - 1]"
    by (simp add: upto_rec1 add.commute add.left_commute)
  with Cons show ?case
    by (simp add: case_prod_unfold Let_def seq_no_def)
qed

lemma anns_loop_count_le: "c \<le> snd (anns_loop u n np cats anns c)"
proof (induction anns arbitrary: c)
  case Nil
  then show ?case by simp
next
  case (Cons a anns)
  show ?case
  proof (cases "filtered_out cats (category_id a)")
    case True
    then show ?thesis using Cons by simp
  next
    case False
    have "c \<le> snd (masks_loop u n np (category_id a) (mask_to_masks u (segmentation a)) c)"
      by (simp add: masks_loop_count)
    also have "\<dots> \<le> snd (anns_loop u n np cats anns
                 (snd (masks_loop u n np (category_id a) (mask_to_masks u (segmentation a)) c)))"
      by (rule Cons.IH)
    finally show ?thesis using False by (simp add: case_prod_unfold Let_def)
  qed
qed

lemma anns_loop_remainder:
  "\<forall>a \<in> set anns. 0 \<le> category_id a \<and> category_id a \<le> int n \<Longrightarrow>
   map (\<lambda>obj. remainder n (obj_id obj)) (fst (anns_loop u n np cats anns c))
     = instance_categories u cats anns"
proof (induction anns arbitrary: c)
  case Nil
  then show ?case by (simp add: instance_categories_def)
next
  case (Cons a anns)
  then show ?case
    using masks_loop_remainder [of "category_id a" n u np "mask_to_masks u (segmentation a)" c]
    by (simp add: case_prod_unfold Let_def instance_categories_def)
qed

lemma upto_append: "i \<le> j + 1 \<Longrightarrow> j \<le> k \<Longrightarrow> [i..j] @ [j + 1..k] = [i..k]"
proof (cases "j = k")
  case True
  then show ?thesis by simp
next
  case False
  assume "i \<le> j + 1" "j \<le> k"
  with False have "i \<le> j + 1" "j + 1 \<le> k" by simp_all
  from upto_split1 [OF this] show ?thesis by simp
qed

lemma anns_loop_seq:
  "\<forall>a \<in> set anns. 0 \<le> category_id a \<and> category_id a \<le> int n \<Longrightarrow>
   map (seq_no n) (fst (anns_loop u n np cats anns c))
     = [c..snd (anns_loop u n np cats anns c) - 1]"
proof (induction anns arbitrary: c)
  case Nil
  then show ?case by simp
next
  case (Cons a anns)
  show ?case
  proof (cases "filtered_out cats (category_id a)")
    case True
    then show ?thesis using Cons by simp
  next
    case False
    let ?ml = "masks_loop u n np (category_id a) (mask_to_masks u (segmentation a)) c"
    let ?c1 = "snd ?ml"
    have c1: "?c1 = c + int (length (mask_to_masks u (segmentation a)))"
      by (simp add: masks_loop_count)
    have a: "map (seq_no n) (fst ?ml) = [c..?c1 - 1]"
      using Cons.prems masks_loop_seq [of "category_id a" n u np _ c] c1 by simp
    have b: "map (seq_no n) (fst (anns_loop u n np cats anns ?c1))
               = [?c1..snd (anns_loop u n np cats anns ?c1) - 1]"
      using Cons by simp
    have le: "?c1 \<le> snd (anns_loop u n np cats anns ?c1)"
      by (rule anns_loop_count_le)
    have "[c..?c1 - 1] @ [?c1..snd (anns_loop u n np cats anns ?c1) - 1]
            = [c..snd (anns_loop u n np cats anns ?c1) - 1]"
      using upto_append [of c "?c1 - 1" "snd (anns_loop u n np cats anns ?c1) - 1"] le c1
      by simp
    with a b False show ?thesis
      by (simp add: case_prod_unfold Let_def)
  qed
qed

text \<open>
  Claim C4. Whatever the value of \<^verbatim>\<open>OBJ_COUNT\<close> when \<^verbatim>\<open>get_each_obj\<close> is called,
  and whatever the category filter, the remainder that \<^verbatim>\<open>save_as_coco_format\<close>
  computes from the object id of every emitted instance is the category id of the
  annotation the instance came from, as long as the category ids of the frame's
  annotations lie in \<open>[0, num_categories - 1]\<close>.
\<close>

theorem get_each_obj_decode:
  assumes "\<forall>a \<in> set (frame_anns coco (frame_id prompt_frame)).
             0 \<le> category_id a \<and> category_id a \<le> int (num_cats coco) - 1"
  shows "map (\<lambda>obj. remainder (num_cats coco) (obj_id obj))
           (fst (get_each_obj u coco prompt_frame num_points cats OBJ_COUNT))
         = instance_categories u cats (frame_anns coco (frame_id prompt_frame))"
proof -
  from assms have "\<forall>a \<in> set (frame_anns coco (frame_id prompt_frame)).
             0 \<le> category_id a \<and> category_id a \<le> int (num_cats coco)"
    by auto
  then show ?thesis
    unfolding get_each_obj_def by (rule anns_loop_remainder)
qed

lemma frame_anns_coco3: "frame_anns coco3 (frame_id (frame_at 0 True)) = [ann_on 0 1]"
  by (simp add: frame_anns_def coco3_def frame_at_def ann_on_def)

theorem get_each_obj_decode_witness:
  "frame_anns coco3 (frame_id (frame_at 0 True)) = [ann_on 0 1]
   \<and> 0 \<le> category_id (ann_on 0 1) \<and> category_id (ann_on 0 1) \<le> int (num_cats coco3) - 1
   \<and> map (\<lambda>obj. remainder (num_cats coco3) (obj_id obj))
        (fst (get_each_obj u0 coco3 (frame_at 0 True) 1 None 5)) = [1]"
proof -
  have r: "0 \<le> category_id (ann_on 0 1) \<and> category_id (ann_on 0 1) \<le> int (num_cats coco3) - 1"
    by (simp add: ann_on_def coco3_def)
  then have h: "\<forall>a \<in> set (frame_anns coco3 (frame_id (frame_at 0 True))).
      0 \<le> category_id a \<and> category_id a \<le> int (num_cats coco3) - 1"
    by (simp add: frame_anns_coco3)
  have "instance_categories u0 None (frame_anns coco3 (frame_id (frame_at 0 True))) = [1]"
    by (simp add: frame_anns_coco3 instance_categories_def filtered_out_def)
       (simp add: ann_on_def u0_def)
  with get_each_obj_decode [OF h, of u0 1 None 5] r frame_anns_coco3 show ?thesis by simp
qed

lemma get_each_obj_count_le: "c \<le> snd (get_each_obj u coco f np cats c)"
  unfolding get_each_obj_def by (rule anns_loop_count_le)

lemma get_each_obj_seq:
  assumes "\<forall>a \<in> set (annotations coco). 0 \<le> category_id a \<and> category_id a \<le> int (num_cats coco)"
  shows "map (seq_no (num_cats coco)) (fst (get_each_obj u coco f np cats c))
           = [c..snd (get_each_obj u coco f np cats c) - 1]"
proof -
  from assms have "\<forall>a \<in> set (frame_anns coco (frame_id f)).
      0 \<le> category_id a \<and> category_id a \<le> int (num_cats coco)"
    by (simp add: frame_anns_def)
  then show ?thesis
    unfolding get_each_obj_def by (rule anns_loop_seq)
qed

lemma planned_objs_Cons:
  "planned_objs ((infos, r) # gen) = concat (map prompt_objs infos) @ planned_objs gen"
  by (simp add: planned_objs_def)

lemma clip_loop_seq:
  assumes ok: "\<forall>a \<in> set (annotations coco). 0 \<le> category_id a \<and> category_id a \<le> int (num_cats coco)"
  shows "clip_loop u coco frames ptype l starts c = Inr (gen, ws, c') \<Longrightarrow>
         c \<le> c' \<and> map (seq_no (num_cats coco)) (planned_objs gen) = [c..c' - 1]"
proof (induction starts arbitrary: c gen ws c')
  case Nil
  then show ?case by (simp add: planned_objs_def)
next
  case (Cons s starts)
  let ?r = "\<lparr>start_idx = s, end_idx = min (s + l - 1) (int (length frames) - 1)\<rparr>"
  show ?case
  proof (cases "find_prompt_frame coco frames ?r")
    case None
    with Cons.prems obtain gen' ws' where
      "clip_loop u coco frames ptype l starts c = Inr (gen', ws', c')" and "gen = gen'"
      by (auto simp: Let_def split: sum.splits)
    with Cons.IH show ?thesis by simp
  next
    case (Some pf)
    let ?g = "get_each_obj u coco pf 1 None c"
    from Some Cons.prems obtain gen' ws' where
      rec: "clip_loop u coco frames ptype l starts (snd ?g) = Inr (gen', ws', c')"
      and gen: "gen = ([\<lparr>prompt_objs = fst ?g, frame_idx = order_in_video pf,
                          prompt_type = ptype, prompt_video_id = video_id pf,
                          prompt_path = path pf\<rparr>], ?r) # gen'"
      by (auto simp: Let_def case_prod_unfold split: sum.splits)
    from Cons.IH [OF rec] have le: "snd ?g \<le> c'"
      and tl: "map (seq_no (num_cats coco)) (planned_objs gen') = [snd ?g..c' - 1]"
      by simp_all
    have hd: "map (seq_no (num_cats coco)) (fst ?g) = [c..snd ?g - 1]"
      by (rule get_each_obj_seq [OF ok])
    have c: "c \<le> snd ?g" by (rule get_each_obj_count_le)
    have "[c..snd ?g - 1] @ [snd ?g..c' - 1] = [c..c' - 1]"
      using upto_append [of c "snd ?g - 1" "c' - 1"] c le by simp
    with hd tl gen c le show ?thesis
      by (simp add: planned_objs_Cons)
  qed
qed

lemma distinct_of_seq:
  "map (seq_no n) objs = [c..c'] \<Longrightarrow> distinct (map obj_id objs)"
proof -
  assume a: "map (seq_no n) objs = [c..c']"
  have "map (seq_no n) objs = map (\<lambda>i. i div (int n + 1)) (map obj_id objs)"
    by (simp add: seq_no_def)
  with a have "distinct (map (\<lambda>i. i div (int n + 1)) (map obj_id objs))"
    by (simp del: map_map)
  then show ?thesis
    using distinct_map [of "\<lambda>i. i div (int n + 1)" "map obj_id objs"] by blast
qed

lemma cats_loop_Some_result:
  "cats_loop u coco fs seen ps (Some i) c = Inr r \<Longrightarrow> r = (ps, Some i, c)"
  by (induction fs arbitrary: seen) (auto simp: Let_def case_prod_unfold split: if_splits)

lemma cats_loop_None_seq:
  assumes ok: "\<forall>a \<in> set (annotations coco). 0 \<le> category_id a \<and> category_id a \<le> int (num_cats coco)"
  shows "cats_loop u coco fs seen ps None c = Inr (ps', pp', c') \<Longrightarrow>
         map (seq_no (num_cats coco)) (case pp' of None \<Rightarrow> [] | Some info \<Rightarrow> prompt_objs info)
           = [c..c' - 1]"
proof (induction fs arbitrary: seen)
  case Nil
  then show ?case by simp
next
  case (Cons f fs)
  show ?case
  proof (cases "is_det_keyframe f \<and> \<not> get_num_categories coco f \<subseteq> seen")
    case False
    with Cons show ?thesis by (auto split: if_splits)
  next
    case True
    let ?g = "get_each_obj u coco f 1 None c"
    let ?info = "\<lparr>prompt_objs = fst ?g, frame_idx = order_in_video f,
                   prompt_type = ''points'', prompt_video_id = video_id f,
                   prompt_path = path f\<rparr>"
    from True Cons.prems have
      "cats_loop u coco fs (seen \<union> (get_num_categories coco f - seen))
         (Some (order_in_video f)) (Some ?info) (snd ?g) = Inr (ps', pp', c')"
      by (simp add: Let_def case_prod_unfold)
    from cats_loop_Some_result [OF this] have "pp' = Some ?info" "c' = snd ?g"
      by simp_all
    with get_each_obj_seq [OF ok, of u f 1 None c] show ?thesis by simp
  qed
qed

text \<open>
  Claim C5. \<^verbatim>\<open>process_singel_video\<close> resets \<^verbatim>\<open>OBJ_COUNT\<close> to zero and then runs one
  of the two planners, which are the only callers of \<^verbatim>\<open>get_each_obj\<close>. When the
  category ids of the dataset lie in \<open>[0, num_categories]\<close>, the object ids of all the
  prompt objects a planner produces for the video are pairwise distinct, whatever their
  number.
\<close>

theorem obj_ids_distinct:
  assumes "\<forall>a \<in> set (annotations coco). 0 \<le> category_id a \<and> category_id a \<le> int (num_cats coco)"
  shows "(get_clip_prompts u coco frames ptype clip_length 0 = Inr (gen, ws, c)
            \<longrightarrow> distinct (map obj_id (planned_objs gen)))
       \<and> (get_prompts_from_categories u coco frames 0 = Inr (cgen, c')
            \<longrightarrow> distinct (map obj_id (cat_planned_objs cgen)))"
proof (intro conjI impI)
  assume "get_clip_prompts u coco frames ptype clip_length 0 = Inr (gen, ws, c)"
  then obtain l starts where "clip_loop u coco frames ptype l starts 0 = Inr (gen, ws, c)"
    by (auto simp: get_clip_prompts_def Let_def split: sum.splits)
  from clip_loop_seq [OF assms this]
  show "distinct (map obj_id (planned_objs gen))"
    by (auto dest: distinct_of_seq)
next
  assume a: "get_prompts_from_categories u coco frames 0 = Inr (cgen, c')"
  then obtain ps pp where loop: "cats_loop u coco frames {} None None 0 = Inr (ps, pp, c')"
    and cgen: "cgen = [] \<or> cgen = [([pp], ps, int (length frames) - 1)]"
    by (auto simp: get_prompts_from_categories_def split: sum.splits if_splits)
  from cats_loop_None_seq [OF assms loop]
  have "distinct (map obj_id (case pp of None \<Rightarrow> [] | Some info \<Rightarrow> prompt_objs info))"
    by (rule distinct_of_seq)
  with cgen show "distinct (map obj_id (cat_planned_objs cgen))"
    by (auto simp: cat_planned_objs_def)
qed


lemma cats_loop_Some_error:
  "introducers coco fs seen \<noteq> [] \<Longrightarrow> cats_loop u coco fs seen ps (Some i) c = Inl TypeError"
  by (induction fs arbitrary: seen) (auto simp: Let_def case_prod_unfold)

lemma cats_loop_None_error:
  "2 \<le> length (introducers coco fs seen) \<Longrightarrow> cats_loop u coco fs seen ps None c = Inl TypeError"
proof (induction fs arbitrary: seen)
  case Nil
  then show ?case by simp
next
  case (Cons f fs)
  show ?case
  proof (cases "is_det_keyframe f \<and> \<not> get_num_categories coco f \<subseteq> seen")
    case False
    with Cons show ?thesis by auto
  next
    case True
    with Cons.prems have "introducers coco fs (seen \<union> get_num_categories coco f) \<noteq> []"
      by auto
    then have "\<And>ps i c. cats_loop u coco fs (seen \<union> (get_num_categories coco f - seen)) ps (Some i) c
                 = Inl TypeError"
      by (simp add: cats_loop_Some_error)
    with True show ?thesis
      by (simp add: Let_def case_prod_unfold)
  qed
qed

text \<open>
  Claim C9. When at least two keyframes of a video introduce a category, the category
  planner raises \<^verbatim>\<open>TypeError\<close> at its two-argument \<^verbatim>\<open>append\<close>, and so does
  \<^verbatim>\<open>process_singel_video\<close> in category-growth mode.
\<close>

theorem category_growth_type_error:
  assumes "2 \<le> length (introducers coco frames {})"
  shows "get_prompts_from_categories u coco frames OBJ_COUNT = Inl TypeError
       \<and> process_singel_video u p coco plog frames ptype clip_length True = Inl TypeError"
  using cats_loop_None_error [OF assms]
  by (simp add: get_prompts_from_categories_def process_singel_video_def)

lemma get_num_categories_coco3:
  "get_num_categories coco3 (frame_at 0 True) = {1}"
  "get_num_categories coco3 (frame_at 1 True) = {2}"
  by (simp_all add: get_num_categories_def frame_anns_def coco3_def frame_at_def ann_on_def)

lemma introducers_coco3: "introducers coco3 frames3 {} = [frame_at 0 True, frame_at 1 True]"
  by (simp add: frames3_def get_num_categories_coco3) (simp add: frame_at_def)


lemma clip_prompts_coco3:
  "get_clip_prompts u0 coco3 frames3 ''points'' (Some 1) 0 =
     Inr (plan3, [(\<lparr>start_idx = 2, end_idx = 2\<rparr>, 1)], 2)"
  by (simp add: get_clip_prompts_def py_range_def range_up.simps frames3_def coco3_def
      frame_at_def ann_on_def u0_def frame_anns_def get_each_obj_def py_index_def
      filtered_out_def plan3_def)

theorem obj_ids_distinct_witness:
  "map category_id (annotations coco3) = [1, 2] \<and> int (num_cats coco3) = 2
   \<and> get_clip_prompts u0 coco3 frames3 ''points'' (Some 1) 0
       = Inr (plan3, [(\<lparr>start_idx = 2, end_idx = 2\<rparr>, 1)], 2)
   \<and> map obj_id (planned_objs plan3) = [1, 5]
   \<and> distinct (map obj_id (planned_objs plan3))"
proof -
  have h: "\<forall>a \<in> set (annotations coco3). 0 \<le> category_id a \<and> category_id a \<le> int (num_cats coco3)"
    by (simp add: coco3_def ann_on_def)
  have d: "distinct (map obj_id (planned_objs plan3))"
    using obj_ids_distinct [OF h, of u0 frames3 "''points''" "Some 1" plan3
        "[(\<lparr>start_idx = 2, end_idx = 2\<rparr>, 1)]" 2] clip_prompts_coco3
    by blast
  have "map category_id (annotations coco3) = [1, 2]" "int (num_cats coco3) = 2"
    by (simp_all add: coco3_def ann_on_def)
  moreover have "map obj_id (planned_objs plan3) = [1, 5]"
    by (simp add: planned_objs_def plan3_def)
  ultimately show ?thesis using d clip_prompts_coco3 by simp
qed

theorem category_growth_type_error_witness:
  "introducers coco3 frames3 {} = [frame_at 0 True, frame_at 1 True]
   \<and> get_prompts_from_categories u0 coco3 frames3 0 = Inl TypeError
   \<and> process_singel_video u0 p0 coco3 [] frames3 ''points'' None True = Inl TypeError"
proof -
  have "2 \<le> length (introducers coco3 frames3 {})"
    by (simp add: introducers_coco3)
  from category_growth_type_error [OF this, of u0 0 p0 "[]" "''points''" None]
  show ?thesis by (simp add: introducers_coco3)
qed


section \<open>Dicts\<close>

lemma dict_get_set: "dict_get (dict_set d k v) k' = (if k' = k then Some v else dict_get d k')"
  by (simp add: dict_get_def dict_set_def update_conv')

lemma dict_get_None_iff: "dict_get d k = None \<longleftrightarrow> k \<notin> dict_keys d"
  by (simp add: dict_get_def dict_keys_def map_of_eq_None_iff)

lemma dict_keys_set: "dict_keys (dict_set d k v) = insert k (dict_keys d)"
  by (simp add: dict_keys_def dict_set_def dom_update)

section \<open>Output assembly: keyframes without segments\<close>

lemma merge_loop_score:
  "items \<noteq> [] \<Longrightarrow> snd (merge_loop n items merged score) \<noteq> None"
proof (induction items arbitrary: merged score)
  case Nil
  then show ?case by simp
next
  case (Cons x items)
  obtain key mask_info where x: "x = (key, mask_info)" by (cases x)
  show ?case
  proof (cases items)
    case Nil
    with x show ?thesis by (simp add: Let_def)
  next
    case (Cons y ys)
    with Cons.IH x show ?thesis by (simp add: Let_def)
  qed
qed

lemma emit_loop_bound: "\<exists>anns. emit_loop u f merged (Some sc) = Inr anns"
proof (induction merged)
  case Nil
  then show ?case by simp
next
  case (Cons x merged)
  obtain key m where "x = (key, m)" by (cases x)
  with Cons show ?case by auto
qed

lemma emit_after_merge:
  "\<exists>anns. emit_loop u f (fst (merge_loop n seg [] score)) (snd (merge_loop n seg [] score))
           = Inr anns"
proof (cases seg)
  case Nil
  then show ?thesis by simp
next
  case (Cons x xs)
  then have "snd (merge_loop n seg [] score) \<noteq> None"
    by (simp add: merge_loop_score)
  then obtain sc where "snd (merge_loop n seg [] score) = Some sc" by auto
  then show ?thesis by (simp add: emit_loop_bound)
qed

lemma frames_loop_missing:
  "f \<in> set fs \<Longrightarrow> is_det_keyframe f \<Longrightarrow> dict_get vs (order_in_video f) = None \<Longrightarrow>
   frames_loop u n vs fs score = Inl KeyError"
proof (induction fs arbitrary: score)
  case Nil
  then show ?case by simp
next
  case (Cons g fs)
  show ?case
  proof (cases "is_det_keyframe g")
    case False
    with Cons show ?thesis by auto
  next
    case key: True
    show ?thesis
    proof (cases "dict_get vs (order_in_video g)")
      case None
      with key show ?thesis by simp
    next
      case (Some seg)
      with Cons.prems have "f \<in> set fs" by auto
      from Cons.IH [OF this Cons.prems(2,3)]
      have rest: "\<And>score. frames_loop u n vs fs score = Inl KeyError" .
      obtain anns where
        "emit_loop u g (fst (merge_loop n seg [] score)) (snd (merge_loop n seg [] score))
           = Inr anns"
        using emit_after_merge by blast
      with key Some rest show ?thesis
        by (simp add: case_prod_unfold)
    qed
  qed
qed

lemma frames_loop_error: "frames_loop u n vs fs score = Inl err \<Longrightarrow> err = KeyError"
proof (induction fs arbitrary: score)
  case Nil
  then show ?case by simp
next
  case (Cons g fs)
  show ?case
  proof (cases "is_det_keyframe g")
    case False
    with Cons show ?thesis by auto
  next
    case key: True
    show ?thesis
    proof (cases "dict_get vs (order_in_video g)")
      case None
      with key Cons.prems show ?thesis by simp
    next
      case (Some seg)
      obtain anns where
        "emit_loop u g (fst (merge_loop n seg [] score)) (snd (merge_loop n seg [] score))
           = Inr anns"
        using emit_after_merge by blast
      with key Some Cons.prems Cons.IH show ?thesis
        by (auto simp: case_prod_unfold split: sum.splits)
    qed
  qed
qed

lemma save_loop_missing:
  assumes "dict_get all_video_segments vid = Some vs"
    and "f \<in> set (images coco)" and "video_id f = vid" and "is_det_keyframe f"
    and "dict_get vs (order_in_video f) = None"
  shows "vid \<in> set vids \<Longrightarrow> save_loop u coco all_video_segments vids score = Inl KeyError"
proof (induction vids arbitrary: score)
  case Nil
  then show ?case by simp
next
  case (Cons v vids)
  show ?case
  proof (cases "dict_get all_video_segments v")
    case None
    then show ?thesis by simp
  next
    case (Some vs')
    let ?fs = "sort_dicts_by_order (get_dicts_by_video_id (images coco) v)"
    show ?thesis
    proof (cases "frames_loop u (num_cats coco) vs' ?fs score")
      case (Inl err)
      with frames_loop_error [OF Inl] Some show ?thesis by simp
    next
      case (Inr res)
      have "v \<noteq> vid"
      proof
        assume "v = vid"
        with assms Some have "vs' = vs" and "f \<in> set ?fs"
          by (simp_all add: sort_dicts_by_order_def get_dicts_by_video_id_def)
        with frames_loop_missing [of f ?fs vs u "num_cats coco" score] assms Inr
        show False by simp
      qed
      with Cons have "\<And>score. save_loop u coco all_video_segments vids score = Inl KeyError"
        by simp
      with Some Inr show ?thesis by (simp add: case_prod_unfold)
    qed
  qed
qed

text \<open>
  Claim C10. If a video that is saved has a keyframe whose ordinal is not a key of the
  video's segments, \<^verbatim>\<open>save_as_coco_format\<close> raises \<^verbatim>\<open>KeyError\<close>; it does not go on
  with no records for that frame.
\<close>

theorem missing_keyframe_key_error:
  assumes "vid \<in> set (case save_video_list of None \<Rightarrow> VIDEO_ID_SET | Some l \<Rightarrow> l)"
    and "dict_get all_video_segments vid = Some vs"
    and "f \<in> set (images coco)" and "video_id f = vid" and "is_det_keyframe f"
    and "dict_get vs (order_in_video f) = None"
  shows "save_as_coco_format u coco VIDEO_ID_SET all_video_segments save_video_list
           = Inl KeyError"
  unfolding save_as_coco_format_def
  using save_loop_missing [OF assms(2-6) assms(1)] .

theorem missing_keyframe_key_error_witness:
  "frame_at 1 True \<in> set (images coco6) \<and> video_id (frame_at 1 True) = 1
   \<and> is_det_keyframe (frame_at 1 True)
   \<and> dict_get [(0::int, [] :: video_segment)] (order_in_video (frame_at 1 True)) = None
   \<and> save_as_coco_format u0 coco6 [1] [(1, [(0, [])])] None = Inl KeyError"
proof -
  have a: "(1::int) \<in> set (case None of None \<Rightarrow> [1] | Some l \<Rightarrow> l)" by simp
  have b: "dict_get [(1::int, [(0::int, [] :: video_segment)])] 1 = Some [(0, [])]"
    by (simp add: dict_get_def)
  have c: "frame_at 1 True \<in> set (images coco6)" "video_id (frame_at 1 True) = 1"
    "is_det_keyframe (frame_at 1 True)"
    by (simp_all add: coco6_def frames6_def frame_at_def)
  have d: "dict_get [(0::int, [] :: video_segment)] (order_in_video (frame_at 1 True)) = None"
    by (simp add: dict_get_def frame_at_def)
  from missing_keyframe_key_error [OF a b c d, of u0] c d show ?thesis by simp
qed


section \<open>Clip Processor: the merge of the two passes\<close>

lemma write_pass_append:
  "write_pass p s (xs @ ys) vs =
     (case write_pass p s xs vs of Inl err \<Rightarrow> Inl err | Inr vs' \<Rightarrow> write_pass p s ys vs')"
proof (induction xs arbitrary: vs)
  case Nil
  then show ?case by simp
next
  case (Cons x xs)
  obtain f ids lg where "x = (f, ids, lg)" by (cases x)
  with Cons show ?case by (simp split: sum.splits)
qed

lemma write_pass_other:
  "write_pass p s ys vs = Inr vs' \<Longrightarrow> k - s \<notin> fst ` set ys \<Longrightarrow> dict_get vs' k = dict_get vs k"
proof (induction ys arbitrary: vs)
  case Nil
  then show ?case by simp
next
  case (Cons y ys)
  obtain f ids lg where y: "y = (f, ids, lg)" by (cases y)
  with Cons.prems obtain d where
    d: "frame_objs p ids lg 0 [] = Inr d"
    and rest: "write_pass p s ys (dict_set vs (f + s) d) = Inr vs'"
    by (auto split: sum.splits)
  from Cons.prems y have "k \<noteq> f + s" and "k - s \<notin> fst ` set ys" by auto
  with Cons.IH [OF rest] show ?case by (simp add: dict_get_set)
qed

lemma write_pass_last:
  assumes "write_pass p s (pre @ (f, ids, lg) # post) vs = Inr vs'"
    and "f \<notin> fst ` set post"
  shows "\<exists>d. frame_objs p ids lg 0 [] = Inr d \<and> dict_get vs' (f + s) = Some d"
proof -
  from assms(1) obtain vs1 where "write_pass p s pre vs = Inr vs1"
    and "write_pass p s ((f, ids, lg) # post) vs1 = Inr vs'"
    by (auto simp: write_pass_append split: sum.splits)
  then obtain d where d: "frame_objs p ids lg 0 [] = Inr d"
    and rest: "write_pass p s post (dict_set vs1 (f + s) d) = Inr vs'"
    by (auto split: sum.splits)
  from write_pass_other [OF rest, of "f + s"] assms(2)
  have "dict_get vs' (f + s) = Some d" by (simp add: dict_get_set)
  with d show ?thesis by blast
qed

text \<open>What the dict comprehension stores for an object id: the value of its last
  position in \<^verbatim>\<open>out_obj_ids\<close>.\<close>

lemma frame_objs_other:
  "frame_objs p ids lg i d0 = Inr d \<Longrightarrow> k \<notin> set ids \<Longrightarrow> dict_get d k = dict_get d0 k"
  by (induction ids arbitrary: i d0) (auto simp: dict_get_set split: if_splits)

lemma frame_objs_entry:
  "frame_objs p ids lg i d0 = Inr d \<Longrightarrow> j < length ids \<Longrightarrow> ids ! j \<notin> set (drop (Suc j) ids) \<Longrightarrow>
   dict_get d (ids ! j)
     = Some \<lparr>seg_mask = mask_of p (lg ! (i + j)), seg_score = score_of p (lg ! (i + j))\<rparr>"
proof (induction ids arbitrary: i d0 j)
  case Nil
  then show ?case by simp
next
  case (Cons a ids)
  from Cons.prems(1) have
    rest: "frame_objs p ids lg (Suc i)
             (dict_set d0 a \<lparr>seg_mask = mask_of p (lg ! i), seg_score = score_of p (lg ! i)\<rparr>) = Inr d"
    by (auto split: if_splits)
  show ?case
  proof (cases j)
    case 0
    with Cons.prems have "a \<notin> set ids" by simp
    from frame_objs_other [OF rest this] 0 show ?thesis by (simp add: dict_get_set)
  next
    case (Suc j')
    with Cons.prems have "j' < length ids" "ids ! j' \<notin> set (drop (Suc j') ids)" by simp_all
    from Cons.IH [OF rest this] Suc show ?thesis by simp
  qed
qed

text \<open>
  Claim C6. \<^verbatim>\<open>predict_on_video\<close> writes the frames of the reverse pass first and
  those of the forward pass second. Hence every frame the forward pass yields holds, for
  every object, the mask and score of the forward pass (of its last yield for that frame),
  whatever the reverse pass wrote there; a frame that only the reverse pass yields keeps
  the reverse pass's value.
\<close>

theorem forward_pass_wins:
  assumes "predict_on_video p st start = Inr vs"
  shows "(propagate_in_video p st False = pre @ (f, ids, lg) # post \<and> f \<notin> fst ` set post
            \<longrightarrow> (\<exists>d. dict_get vs (f + start) = Some d \<and> frame_objs p ids lg 0 [] = Inr d
                  \<and> (\<forall>j < length ids. ids ! j \<notin> set (drop (Suc j) ids) \<longrightarrow>
                        dict_get d (ids ! j)
                          = Some \<lparr>seg_mask = mask_of p (lg ! j),
                                  seg_score = score_of p (lg ! j)\<rparr>)))
       \<and> (propagate_in_video p st True = pre' @ (g, ids', lg') # post'
            \<and> g \<notin> fst ` set post' \<and> g \<notin> fst ` set (propagate_in_video p st False)
            \<longrightarrow> (\<exists>d. dict_get vs (g + start) = Some d \<and> frame_objs p ids' lg' 0 [] = Inr d))"
proof (intro conjI impI)
  from assms obtain vs1 where
    rev: "write_pass p start (propagate_in_video p st True) [] = Inr vs1"
    and fwd: "write_pass p start (propagate_in_video p st False) vs1 = Inr vs"
    by (auto simp: predict_on_video_def split: sum.splits)
  {
    assume a: "propagate_in_video p st False = pre @ (f, ids, lg) # post \<and> f \<notin> fst ` set post"
    with fwd have "write_pass p start (pre @ (f, ids, lg) # post) vs1 = Inr vs" by simp
    from write_pass_last [OF this] a obtain d where
      d: "frame_objs p ids lg 0 [] = Inr d" "dict_get vs (f + start) = Some d" by blast
    from frame_objs_entry [OF d(1)] have
      "\<forall>j < length ids. ids ! j \<notin> set (drop (Suc j) ids) \<longrightarrow>
         dict_get d (ids ! j)
           = Some \<lparr>seg_mask = mask_of p (lg ! j), seg_score = score_of p (lg ! j)\<rparr>"
      by simp
    with d show "\<exists>d. dict_get vs (f + start) = Some d \<and> frame_objs p ids lg 0 [] = Inr d
           \<and> (\<forall>j < length ids. ids ! j \<notin> set (drop (Suc j) ids) \<longrightarrow>
                 dict_get d (ids ! j)
                   = Some \<lparr>seg_mask = mask_of p (lg ! j), seg_score = score_of p (lg ! j)\<rparr>)"
      by blast
  }
  {
    assume b: "propagate_in_video p st True = pre' @ (g, ids', lg') # post'
            \<and> g \<notin> fst ` set post' \<and> g \<notin> fst ` set (propagate_in_video p st False)"
    with rev have "write_pass p start (pre' @ (g, ids', lg') # post') [] = Inr vs1" by simp
    from write_pass_last [OF this] b obtain d where
      d: "frame_objs p ids' lg' 0 [] = Inr d" "dict_get vs1 (g + start) = Some d" by blast
    from write_pass_other [OF fwd, of "g + start"] b
    have "dict_get vs (g + start) = dict_get vs1 (g + start)" by simp
    with d show "\<exists>d. dict_get vs (g + start) = Some d \<and> frame_objs p ids' lg' 0 [] = Inr d"
      by simp
  }
qed

lemma propagate_st3:
  "propagate_in_video p0 st3 True = [(1, [1], [1]), (0, [1], [1])]"
  "propagate_in_video p0 st3 False = [(1, [1], [2]), (2, [1], [2])]"
  by (simp_all add: p0_def st3_def frames6_def anchor_def tracked_ids_def)

lemma predict_st3: "predict_on_video p0 st3 0 = Inr segs3"
  by (simp add: predict_on_video_def propagate_st3 segs3_def dict_set_def)
     (simp add: p0_def)

theorem forward_pass_wins_witness:
  "predict_on_video p0 st3 0 = Inr segs3
   \<and> propagate_in_video p0 st3 True = [(1, [1], [1]), (0, [1], [1])]
   \<and> propagate_in_video p0 st3 False = [] @ (1, [1], [2]) # [(2, [1], [2])]
   \<and> dict_get segs3 (1 + 0) = Some [(1, \<lparr>seg_mask = mask_of p0 2, seg_score = score_of p0 2\<rparr>)]
   \<and> dict_get segs3 (0 + 0) = Some [(1, \<lparr>seg_mask = mask_of p0 1, seg_score = score_of p0 1\<rparr>)]"
proof -
  have fwd: "propagate_in_video p0 st3 False = [] @ (1, [1], [2]) # [(2, [1], [2])]
               \<and> (1::int) \<notin> fst ` set [(2::int, [1::int], [2::int])]"
    by (simp add: propagate_st3)
  have rev: "propagate_in_video p0 st3 True = [(1, [1], [1])] @ (0, [1], [1]) # []
               \<and> (0::int) \<notin> fst ` set ([] :: int yield list)
               \<and> 0 \<notin> fst ` set (propagate_in_video p0 st3 False)"
    by (simp add: propagate_st3)
  have d1: "frame_objs p0 [1] [2] 0 [] = Inr [(1, \<lparr>seg_mask = mask_of p0 2, seg_score = score_of p0 2\<rparr>)]"
    by (simp add: dict_set_def)
  have d0: "frame_objs p0 [1] [1] 0 [] = Inr [(1, \<lparr>seg_mask = mask_of p0 1, seg_score = score_of p0 1\<rparr>)]"
    by (simp add: dict_set_def)
  note inst = forward_pass_wins [OF predict_st3,
      of "[]" 1 "[1]" "[2]" "[(2, [1], [2])]" "[(1, [1], [1])]" 0 "[1]" "[1]" "[]"]
  from inst fwd d1 have "dict_get segs3 (1 + 0)
      = Some [(1, \<lparr>seg_mask = mask_of p0 2, seg_score = score_of p0 2\<rparr>)]"
    by auto
  moreover from inst rev d0 have "dict_get segs3 (0 + 0)
      = Some [(1, \<lparr>seg_mask = mask_of p0 1, seg_score = score_of p0 1\<rparr>)]"
    by auto
  ultimately show ?thesis using predict_st3 propagate_st3 by simp
qed


section \<open>Clip Planner, fixed-length mode\<close>

lemma find_prompt_frame_None:
  "find_prompt_frame coco frames r = None \<longleftrightarrow> \<not> has_annotated_keyframe coco frames r"
  by (induction frames) (auto simp: has_annotated_keyframe_def)

lemma clip_loop_ranges:
  "clip_loop u coco frames ptype l starts c = Inr (gen, ws, c') \<Longrightarrow>
   map snd gen = filter (has_annotated_keyframe coco frames)
                   (map (clip_range_at (int (length frames)) l) starts)
   \<and> map fst ws = filter (\<lambda>r. \<not> has_annotated_keyframe coco frames r)
                    (map (clip_range_at (int (length frames)) l) starts)"
proof (induction starts arbitrary: c gen ws c')
  case Nil
  then show ?case by simp
next
  case (Cons s starts)
  let ?r = "clip_range_at (int (length frames)) l s"
  show ?case
  proof (cases "find_prompt_frame coco frames ?r")
    case None
    then have no: "\<not> has_annotated_keyframe coco frames ?r"
      by (simp add: find_prompt_frame_None)
    from None Cons.prems obtain gen' ws' vid where
      "clip_loop u coco frames ptype l starts c = Inr (gen', ws', c')"
      and "gen = gen'" and "ws = (?r, vid) # ws'"
      by (auto simp: Let_def clip_range_at_def split: sum.splits)
    with Cons.IH no show ?thesis by simp
  next
    case (Some pf)
    then have yes: "has_annotated_keyframe coco frames ?r"
      using find_prompt_frame_None [of coco frames ?r] by simp
    from Some Cons.prems obtain gen' ws' c1 c2 info where
      "clip_loop u coco frames ptype l starts c1 = Inr (gen', ws', c2)"
      and "gen = ([info], ?r) # gen'" and "ws = ws'"
      by (auto simp: Let_def case_prod_unfold clip_range_at_def split: sum.splits)
    with Cons.IH yes show ?thesis by simp
  qed
qed

lemma range_up_tiles:
  "0 < l \<Longrightarrow> i < n \<Longrightarrow>
   map (clip_range_at n l) (range_up i n l) \<noteq> []
   \<and> start_idx (hd (map (clip_range_at n l) (range_up i n l))) = i
   \<and> end_idx (last (map (clip_range_at n l) (range_up i n l))) = n - 1
   \<and> contiguous (map (clip_range_at n l) (range_up i n l))"
proof (induction i n l rule: range_up.induct)
  case (1 i n step)
  have unfold: "range_up i n step = i # range_up (i + step) n step"
    using "1.prems" by (simp add: range_up.simps [of i n step])
  show ?case
  proof (cases "i + step < n")
    case True
    let ?rs = "map (clip_range_at n step) (range_up (i + step) n step)"
    from True "1.IH" "1.prems" have ih:
      "?rs \<noteq> []" "start_idx (hd ?rs) = i + step" "end_idx (last ?rs) = n - 1"
      "contiguous ?rs"
      by simp_all
    from ih(1) obtain r rs where rs: "?rs = r # rs"
      by (cases ?rs) auto
    have m: "map (clip_range_at n step) (range_up i n step) = clip_range_at n step i # r # rs"
      using rs by (simp add: unfold)
    have c0: "start_idx (clip_range_at n step i) = i"
      "end_idx (clip_range_at n step i) = i + step - 1"
      using True by (simp_all add: clip_range_at_def)
    from ih(2) rs have r: "start_idx r = i + step" by simp
    from ih(3) rs have e: "end_idx (last (r # rs)) = n - 1" by simp
    from ih(4) rs have cg: "contiguous (r # rs)" by simp
    have "contiguous (clip_range_at n step i # r # rs)"
      using c0 r cg "1.prems" by simp
    moreover have "last (clip_range_at n step i # r # rs) = last (r # rs)" by simp
    ultimately show ?thesis
      unfolding m using c0 e by simp
  next
    case False
    then have "range_up (i + step) n step = []"
      by (simp add: range_up.simps [of "i + step" n step])
    with False "1.prems" show ?thesis
      unfolding unfold by (simp add: clip_range_at_def)
  qed
qed

lemma clip_ranges_tiles: "0 < l \<Longrightarrow> tiles n (clip_ranges n l)"
proof (cases "n \<le> 0")
  case True
  then show ?thesis
    by (simp add: tiles_def clip_ranges_def range_up.simps [of 0 n l])
next
  case False
  assume "0 < l"
  with False range_up_tiles [of l 0 n] show ?thesis
    by (simp add: tiles_def clip_ranges_def)
qed

lemma clip_prompts_coco6:
  "get_clip_prompts u0 coco6 frames6 ''points'' (Some 3) 0 =
     Inr (plan6, [(\<lparr>start_idx = 3, end_idx = 5\<rparr>, 1)], 1)"
  by (simp add: get_clip_prompts_def py_range_def range_up.simps frames6_def coco6_def
      frame_at_def ann_on_def u0_def frame_anns_def get_each_obj_def py_index_def
      filtered_out_def plan6_def)

lemma clip_prompts_coco3_whole:
  "get_clip_prompts u0 coco3 frames3 ''points'' None 0 = Inr (plan3_whole, [], 1)"
  by (simp add: get_clip_prompts_def py_range_def range_up.simps frames3_def coco3_def
      frame_at_def ann_on_def u0_def frame_anns_def get_each_obj_def py_index_def
      filtered_out_def plan3_whole_def)

lemma clip_ranges_3_3: "clip_ranges 3 3 = [\<lparr>start_idx = 0, end_idx = 2\<rparr>]"
  by (simp add: clip_ranges_def range_up.simps clip_range_at_def)

lemma keyframe_coco3: "has_annotated_keyframe coco3 frames3 \<lparr>start_idx = 0, end_idx = 2\<rparr>"
  by (simp add: has_annotated_keyframe_def frames3_def coco3_def frame_at_def frame_anns_def
      ann_on_def)

lemma contiguous_after:
  "contiguous (r # rs) \<Longrightarrow> x \<in> set rs \<Longrightarrow> end_idx r < start_idx x \<and> end_idx r < end_idx x"
proof (induction rs arbitrary: r)
  case Nil
  then show ?case by simp
next
  case (Cons r' rs)
  from Cons.prems(1) have a: "start_idx r' = end_idx r + 1" and c: "contiguous (r' # rs)"
    by simp_all
  from c have b: "start_idx r' \<le> end_idx r'" by (cases rs) simp_all
  show ?case
  proof (cases "x = r'")
    case True
    with a b show ?thesis by simp
  next
    case False
    with Cons.prems(2) have "x \<in> set rs" by simp
    from Cons.IH [OF c this] a b show ?thesis by simp
  qed
qed

lemma contiguous_tail: "contiguous (r # rs) \<Longrightarrow> contiguous rs"
  by (cases rs) simp_all

lemma contiguous_filter_eq:
  "contiguous rs \<Longrightarrow> filter P rs \<noteq> [] \<Longrightarrow> contiguous (filter P rs) \<Longrightarrow>
   start_idx (hd (filter P rs)) = start_idx (hd rs) \<Longrightarrow>
   end_idx (last (filter P rs)) = end_idx (last rs) \<Longrightarrow> filter P rs = rs"
proof (induction rs)
  case Nil
  then show ?case by simp
next
  case (Cons r rs)
  show ?case
  proof (cases "P r")
    case False
    with Cons.prems(2) have "filter P rs \<noteq> []" by simp
    then have "hd (filter P rs) \<in> set (filter P rs)" by (rule hd_in_set)
    then have "hd (filter P rs) \<in> set rs" by simp
    from contiguous_after [OF Cons.prems(1) this]
    have "end_idx r < start_idx (hd (filter P rs))" by simp
    moreover from Cons.prems(1) have "start_idx r \<le> end_idx r" by (cases rs) simp_all
    moreover from False Cons.prems(4) have "start_idx (hd (filter P rs)) = start_idx r" by simp
    ultimately show ?thesis by simp
  next
    case True
    show ?thesis
    proof (cases rs)
      case Nil
      with True show ?thesis by simp
    next
      case (Cons r' rs')
      have ne: "filter P rs \<noteq> []"
      proof
        assume e: "filter P rs = []"
        with True Cons.prems(5) Cons have "end_idx r = end_idx (last (r' # rs'))" by simp
        moreover have "last (r' # rs') \<in> set rs" using Cons by simp
        from contiguous_after [OF Cons.prems(1) this]
        have "end_idx r < end_idx (last (r' # rs'))" by simp
        ultimately show False by simp
      qed
      then obtain h hs where hs: "filter P rs = h # hs" by (cases "filter P rs") auto
      with True Cons.prems(3) have "start_idx h = end_idx r + 1" and cf: "contiguous (filter P rs)"
        by simp_all
      moreover from Cons.prems(1) Cons have "start_idx r' = end_idx r + 1" by simp
      ultimately have st: "start_idx (hd (filter P rs)) = start_idx (hd rs)"
        using hs Cons by simp
      from True Cons.prems(5) ne Cons have en: "end_idx (last (filter P rs)) = end_idx (last rs)"
        by simp
      from Cons.IH [OF contiguous_tail [OF Cons.prems(1)] ne cf st en] True
      show ?thesis by simp
    qed
  qed
qed

lemma tiles_filter_iff:
  "tiles n rs \<Longrightarrow> tiles n (filter P rs) \<longleftrightarrow> (\<forall>r \<in> set rs. P r)"
proof
  assume t: "tiles n rs" and tf: "tiles n (filter P rs)"
  show "\<forall>r \<in> set rs. P r"
  proof (cases "n \<le> 0")
    case True
    with t show ?thesis by (simp add: tiles_def)
  next
    case False
    with t tf have "filter P rs = rs"
      by (intro contiguous_filter_eq) (simp_all add: tiles_def)
    then show ?thesis by (simp add: filter_id_conv)
  qed
next
  assume "tiles n rs" and "\<forall>r \<in> set rs. P r"
  then show "tiles n (filter P rs)" by (simp add: filter_id_conv)
qed


section \<open>Clip Planner, category-growth mode\<close>

lemma introducers_subset: "set (introducers coco fs seen) \<subseteq> set fs"
  by (induction fs arbitrary: seen) auto

lemma cats_loop_no_introducer:
  "introducers coco fs seen = [] \<Longrightarrow> cats_loop u coco fs seen ps pp c = Inr (ps, pp, c)"
  by (induction fs) (auto split: if_splits)

lemma cats_loop_one_introducer:
  "introducers coco fs seen = [f] \<Longrightarrow>
   cats_loop u coco fs seen ps None c =
     Inr (Some (order_in_video f),
          Some \<lparr>prompt_objs = fst (get_each_obj u coco f 1 None c),
                frame_idx = order_in_video f, prompt_type = ''points'',
                prompt_video_id = video_id f, prompt_path = path f\<rparr>,
          snd (get_each_obj u coco f 1 None c))"
proof (induction fs)
  case Nil
  then show ?case by simp
next
  case (Cons g fs)
  show ?case
  proof (cases "is_det_keyframe g \<and> \<not> get_num_categories coco g \<subseteq> seen")
    case False
    with Cons show ?thesis by auto
  next
    case True
    with Cons.prems have g: "g = f"
      and rest: "introducers coco fs (seen \<union> get_num_categories coco g) = []"
      by auto
    from rest have "introducers coco fs (seen \<union> (get_num_categories coco g - seen)) = []"
      by simp
    from cats_loop_no_introducer [OF this] True g show ?thesis
      by (simp add: Let_def case_prod_unfold)
  qed
qed

lemma cat_planner_ranges:
  assumes "get_prompts_from_categories u coco frames c = Inr (gen, c')"
  shows "length (introducers coco frames {}) \<le> 1
       \<and> (introducers coco frames {} = [] \<longrightarrow> gen = [([None], None, int (length frames) - 1)])
       \<and> cat_ranges gen =
            (case introducers coco frames {} of
               [] \<Rightarrow> []
             | f # fs \<Rightarrow>
                 if order_in_video f \<noteq> int (length frames) - 1
                 then [\<lparr>start_idx = order_in_video f, end_idx = int (length frames) - 1\<rparr>]
                 else [])"
proof -
  have short: "length (introducers coco frames {}) \<le> 1"
  proof (rule ccontr)
    assume "\<not> length (introducers coco frames {}) \<le> 1"
    then have "2 \<le> length (introducers coco frames {})" by simp
    from cats_loop_None_error [OF this, of u None c] assms show False
      by (simp add: get_prompts_from_categories_def)
  qed
  show ?thesis
  proof (cases "introducers coco frames {}")
    case Nil
    from cats_loop_no_introducer [OF Nil, of u None None c] assms
    have "gen = [([None], None, int (length frames) - 1)]"
      by (simp add: get_prompts_from_categories_def)
    with Nil short show ?thesis by (simp add: cat_ranges_def)
  next
    case (Cons f fs)
    with short have one: "introducers coco frames {} = [f]" by simp
    from cats_loop_one_introducer [OF one, of u None c] assms
    have "gen = (if order_in_video f \<noteq> int (length frames) - 1
                 then [([Some \<lparr>prompt_objs = fst (get_each_obj u coco f 1 None c),
                                frame_idx = order_in_video f, prompt_type = ''points'',
                                prompt_video_id = video_id f, prompt_path = path f\<rparr>],
                        Some (order_in_video f), int (length frames) - 1)]
                 else [])"
      by (auto simp: get_prompts_from_categories_def)
    with one short show ?thesis by (simp add: cat_ranges_def)
  qed
qed

lemma cat_planner_tiles:
  assumes "get_prompts_from_categories u coco frames c = Inr (gen, c')"
  shows "tiles (int (length frames)) (cat_ranges gen) \<longleftrightarrow>
           frames = [] \<or> (\<exists>f. introducers coco frames {} = [f] \<and> order_in_video f = 0
                             \<and> 1 < int (length frames))"
proof (cases "introducers coco frames {}")
  case Nil
  with cat_planner_ranges [OF assms] have "cat_ranges gen = []" by (simp add: cat_ranges_def)
  with Nil show ?thesis by (simp add: tiles_def)
next
  case (Cons f fs)
  define n where "n = int (length frames)"
  from Cons cat_planner_ranges [OF assms] have one: "introducers coco frames {} = [f]"
    and r: "cat_ranges gen =
         (if order_in_video f \<noteq> n - 1
          then [\<lparr>start_idx = order_in_video f, end_idx = n - 1\<rparr>] else [])"
    by (simp_all add: n_def)
  from one introducers_subset [of coco frames "{}"] have ne: "frames \<noteq> []" by auto
  then have n: "0 < n" by (simp add: n_def)
  have rhs: "(frames = [] \<or> (\<exists>f. introducers coco frames {} = [f] \<and> order_in_video f = 0
                                 \<and> 1 < n)) \<longleftrightarrow> order_in_video f = 0 \<and> 1 < n"
    using one ne by auto
  have lhs: "tiles n (cat_ranges gen) \<longleftrightarrow> order_in_video f = 0 \<and> 1 < n"
  proof (cases "order_in_video f \<noteq> n - 1")
    case True
    with r n have "tiles n (cat_ranges gen) \<longleftrightarrow> order_in_video f = 0 \<and> order_in_video f \<le> n - 1"
      by (auto simp: tiles_def)
    with True n show ?thesis by auto
  next
    case False
    with r n have "\<not> tiles n (cat_ranges gen)" by (simp add: tiles_def)
    with False n show ?thesis by auto
  qed
  from lhs rhs show ?thesis unfolding n_def by simp
qed

text \<open>
  Claim C1, as amended. In fixed-length mode with a clip length of at least one, the
  ranges \<open>[kL, min((k+1)L - 1, N - 1)]\<close> that the planner goes through tile
  \<open>[0, N - 1]\<close>; the ranges it yields are, in order, those of them that contain an
  annotated keyframe; so the yielded ranges tile \<open>[0, N - 1]\<close> if and only if every clip
  contains an annotated keyframe. In category-growth mode, whenever the planner returns,
  at most one keyframe introduces categories: with one, at ordinal \<open>p\<close>, the planner yields
  the one range \<open>[p, N - 1]\<close>, or nothing when \<open>p = N - 1\<close>; with none, it yields no range
  that has a start index; so its ranges tile \<open>[0, N - 1]\<close> if and only if one
  keyframe introduces categories, its ordinal is 0 and the video has at least two frames
  (or the video has no frame at all).
\<close>

theorem planner_ranges:
  "(get_clip_prompts u coco frames ptype clip_length OBJ_COUNT = Inr (gen, ws, c)
      \<and> l = (case clip_length of None \<Rightarrow> int (length frames) | Some k \<Rightarrow> k) \<and> 0 < l
    \<longrightarrow> tiles (int (length frames)) (clip_ranges (int (length frames)) l)
        \<and> map snd gen = filter (has_annotated_keyframe coco frames)
                          (clip_ranges (int (length frames)) l)
        \<and> (tiles (int (length frames)) (map snd gen)
             \<longleftrightarrow> (\<forall>r \<in> set (clip_ranges (int (length frames)) l).
                    has_annotated_keyframe coco frames r)))
   \<and> (get_prompts_from_categories u coco frames OBJ_COUNT = Inr (cgen, c')
    \<longrightarrow> length (introducers coco frames {}) \<le> 1
        \<and> (introducers coco frames {} = [] \<longrightarrow> cgen = [([None], None, int (length frames) - 1)])
        \<and> cat_ranges cgen =
             (case introducers coco frames {} of
                [] \<Rightarrow> []
              | f # fs \<Rightarrow>
                  if order_in_video f \<noteq> int (length frames) - 1
                  then [\<lparr>start_idx = order_in_video f, end_idx = int (length frames) - 1\<rparr>]
                  else [])
        \<and> (tiles (int (length frames)) (cat_ranges cgen)
             \<longleftrightarrow> frames = [] \<or> (\<exists>f. introducers coco frames {} = [f] \<and> order_in_video f = 0
                                    \<and> 1 < int (length frames))))"
proof (intro conjI impI)
  assume a: "get_clip_prompts u coco frames ptype clip_length OBJ_COUNT = Inr (gen, ws, c)
      \<and> l = (case clip_length of None \<Rightarrow> int (length frames) | Some k \<Rightarrow> k) \<and> 0 < l"
  then have "clip_loop u coco frames ptype l (range_up 0 (int (length frames)) l)
                     OBJ_COUNT = Inr (gen, ws, c)"
    by (auto simp: get_clip_prompts_def py_range_def Let_def split: if_splits)
  from clip_loop_ranges [OF this]
  show g: "map snd gen = filter (has_annotated_keyframe coco frames)
                             (clip_ranges (int (length frames)) l)"
    by (simp add: clip_ranges_def)
  from a show t: "tiles (int (length frames)) (clip_ranges (int (length frames)) l)"
    by (simp add: clip_ranges_tiles)
  from tiles_filter_iff [OF t, of "has_annotated_keyframe coco frames"]
  show "tiles (int (length frames)) (map snd gen)
             \<longleftrightarrow> (\<forall>r \<in> set (clip_ranges (int (length frames)) l).
                    has_annotated_keyframe coco frames r)"
    unfolding g .
next
  assume b: "get_prompts_from_categories u coco frames OBJ_COUNT = Inr (cgen, c')"
  from cat_planner_ranges [OF b]
  show "length (introducers coco frames {}) \<le> 1"
    and "cat_ranges cgen =
             (case introducers coco frames {} of
                [] \<Rightarrow> []
              | f # fs \<Rightarrow>
                  if order_in_video f \<noteq> int (length frames) - 1
                  then [\<lparr>start_idx = order_in_video f, end_idx = int (length frames) - 1\<rparr>]
                  else [])"
    by simp_all
  from cat_planner_tiles [OF b]
  show "tiles (int (length frames)) (cat_ranges cgen)
             \<longleftrightarrow> frames = [] \<or> (\<exists>f. introducers coco frames {} = [f] \<and> order_in_video f = 0
                                    \<and> 1 < int (length frames))" .
  assume "introducers coco frames {} = []"
  with cat_planner_ranges [OF b]
  show "cgen = [([None], None, int (length frames) - 1)]" by simp
qed


lemma cat_prompts_coco6: "get_prompts_from_categories u0 coco6 frames6 0 = Inr (cplan6, 1)"
  by (simp add: get_prompts_from_categories_def frames6_def coco6_def frame_at_def ann_on_def
      u0_def frame_anns_def get_each_obj_def get_num_categories_def filtered_out_def
      cplan6_def info_at_def)

lemma cat_prompts_coco2: "get_prompts_from_categories u0 coco2 frames2 0 = Inr (cplan2, 1)"
  by (simp add: get_prompts_from_categories_def frames2_def coco2_def frame_at_def ann_on_def
      u0_def frame_anns_def get_each_obj_def get_num_categories_def filtered_out_def
      cplan2_def info_at_def)

lemma cat_prompts_none:
  "get_prompts_from_categories u0 coco6 [frame_at 0 False] 0 = Inr ([([None], None, 0)], 0)"
  by (simp add: get_prompts_from_categories_def frame_at_def)

lemma introducers_coco2: "introducers coco2 frames2 {} = [frame_at 0 True]"
  by (simp add: frames2_def coco2_def frame_at_def ann_on_def frame_anns_def
      get_num_categories_def)

lemma introducers_none: "introducers coco6 [frame_at 0 False] {} = []"
  by (simp add: frame_at_def)

theorem planner_tiling_counterexample:
  "get_clip_prompts u0 coco6 frames6 ''points'' (Some 3) 0
     = Inr (plan6, [(\<lparr>start_idx = 3, end_idx = 5\<rparr>, 1)], 1)
   \<and> int (length frames6) = 6
   \<and> map snd plan6 = [\<lparr>start_idx = 0, end_idx = 2\<rparr>]
   \<and> \<not> tiles (int (length frames6)) (map snd plan6)
   \<and> get_prompts_from_categories u0 coco6 frames6 0 = Inr (cplan6, 1)
   \<and> cat_ranges cplan6 = [\<lparr>start_idx = 1, end_idx = 5\<rparr>]
   \<and> \<not> tiles (int (length frames6)) (cat_ranges cplan6)"
  using clip_prompts_coco6 cat_prompts_coco6
  by (simp add: plan6_def frames6_def tiles_def cplan6_def cat_ranges_def)

theorem planner_ranges_witness:
  "get_clip_prompts u0 coco3 frames3 ''points'' None 0 = Inr (plan3_whole, [], 1)
   \<and> clip_ranges (int (length frames3)) 3 = [\<lparr>start_idx = 0, end_idx = 2\<rparr>]
   \<and> has_annotated_keyframe coco3 frames3 \<lparr>start_idx = 0, end_idx = 2\<rparr>
   \<and> tiles (int (length frames3)) (clip_ranges (int (length frames3)) 3)
   \<and> tiles (int (length frames3)) (map snd plan3_whole)
   \<and> get_prompts_from_categories u0 coco2 frames2 0 = Inr (cplan2, 1)
   \<and> introducers coco2 frames2 {} = [frame_at 0 True]
   \<and> cat_ranges cplan2 = [\<lparr>start_idx = 0, end_idx = 1\<rparr>]
   \<and> tiles (int (length frames2)) (cat_ranges cplan2)
   \<and> introducers coco6 [frame_at 0 False] {} = []
   \<and> get_prompts_from_categories u0 coco6 [frame_at 0 False] 0 = Inr ([([None], None, 0)], 0)"
proof -
  have n: "int (length frames3) = 3" by (simp add: frames3_def)
  have l: "(3::int) = (case None of None \<Rightarrow> int (length frames3) | Some k \<Rightarrow> k)"
    by (simp add: n)
  have all: "\<forall>r \<in> set (clip_ranges (int (length frames3)) 3).
               has_annotated_keyframe coco3 frames3 r"
    by (simp add: n clip_ranges_3_3 keyframe_coco3)
  have hyp: "get_clip_prompts u0 coco3 frames3 ''points'' None 0 = Inr (plan3_whole, [], 1)
      \<and> (3::int) = (case None of None \<Rightarrow> int (length frames3) | Some k \<Rightarrow> k) \<and> (0::int) < 3"
    using clip_prompts_coco3_whole l by simp
  note fixed = planner_ranges [where u = u0 and coco = coco3 and frames = frames3
      and ptype = "''points''" and clip_length = None and OBJ_COUNT = 0
      and gen = plan3_whole and ws = "[]" and c = 1 and l = 3,
      THEN conjunct1, rule_format, OF hyp]
  from fixed all have f1: "tiles (int (length frames3)) (clip_ranges (int (length frames3)) 3)"
    and f2: "tiles (int (length frames3)) (map snd plan3_whole)"
    by blast+
  note cat = planner_ranges [where u = u0 and coco = coco2 and frames = frames2
      and OBJ_COUNT = 0 and cgen = cplan2 and c' = 1,
      THEN conjunct2, rule_format, OF cat_prompts_coco2]
  have n2: "1 < int (length frames2)" "order_in_video (frame_at 0 True) = 0"
    "order_in_video (frame_at 0 True) \<noteq> int (length frames2) - 1"
    "int (length frames2) - 1 = 1"
    by (simp_all add: frames2_def frame_at_def)
  from cat introducers_coco2 n2 have c1: "cat_ranges cplan2 = [\<lparr>start_idx = 0, end_idx = 1\<rparr>]"
    by simp
  from cat introducers_coco2 n2 have c2: "tiles (int (length frames2)) (cat_ranges cplan2)"
    by blast
  note none = planner_ranges [where u = u0 and coco = coco6 and frames = "[frame_at 0 False]"
      and OBJ_COUNT = 0 and cgen = "[([None], None, 0)]" and c' = 0,
      THEN conjunct2, rule_format, OF cat_prompts_none]
  from none have "length (introducers coco6 [frame_at 0 False] {}) \<le> 1" by blast
  with f1 f2 c1 c2 clip_prompts_coco3_whole clip_ranges_3_3 keyframe_coco3 n
    cat_prompts_coco2 introducers_coco2 cat_prompts_none introducers_none
  show ?thesis by simp
qed

section \<open>Skipped clips\<close>

lemma write_pass_keys:
  "write_pass p s ys vs = Inr vs' \<Longrightarrow>
   dict_keys vs' = dict_keys vs \<union> (\<lambda>y. fst y + s) ` set ys"
proof (induction ys arbitrary: vs)
  case Nil
  then show ?case by simp
next
  case (Cons y ys)
  obtain f ids lg where y: "y = (f, ids, lg)" by (cases y)
  with Cons.prems obtain d where
    "write_pass p s ys (dict_set vs (f + s) d) = Inr vs'"
    by (auto split: sum.splits)
  from Cons.IH [OF this] y show ?case by (auto simp: dict_keys_set)
qed

lemma predict_on_video_keys:
  assumes "predict_on_video p st s = Inr vs" and "well_behaved p"
  shows "dict_keys vs \<subseteq> {s..s + int (length (fst st)) - 1}"
proof -
  from assms(1) obtain vs1 where
    a: "write_pass p s (propagate_in_video p st True) [] = Inr vs1"
    and b: "write_pass p s (propagate_in_video p st False) vs1 = Inr vs"
    by (auto simp: predict_on_video_def split: sum.splits)
  from write_pass_keys [OF a] write_pass_keys [OF b]
  have "dict_keys vs = (\<lambda>y. fst y + s) ` set (propagate_in_video p st True)
                         \<union> (\<lambda>y. fst y + s) ` set (propagate_in_video p st False)"
    by (simp add: dict_keys_def)
  moreover from assms(2) have
    "\<And>reverse y. y \<in> set (propagate_in_video p st reverse) \<Longrightarrow>
       0 \<le> fst y \<and> fst y < int (length (fst st))"
    unfolding well_behaved_def by blast
  ultimately show ?thesis by fastforce
qed

lemma length_py_slice:
  "0 \<le> s \<Longrightarrow> s \<le> e \<Longrightarrow> int (length (py_slice xs s (e + 1))) \<le> e + 1 - s"
  by (simp add: py_slice_def slice_bound_def Let_def)

lemma process_video_clip_keys:
  assumes "process_video_clip p frames clip_prompts r = Inr segs" and "well_behaved p"
    and "0 \<le> start_idx r" and "start_idx r \<le> end_idx r"
  shows "dict_keys segs \<subseteq> {start_idx r..end_idx r}"
proof -
  let ?st = "(py_slice frames (start_idx r) (end_idx r + 1),
              map (\<lambda>prompt_info. (frame_idx prompt_info - start_idx r, prompt_type prompt_info,
                                    prompt_objs prompt_info)) clip_prompts)"
  from assms(1) have "predict_on_video p ?st (start_idx r) = Inr segs"
    by (auto simp: process_video_clip_def Let_def split: sum.splits)
  from predict_on_video_keys [OF this assms(2)]
  have "dict_keys segs \<subseteq> {start_idx r..start_idx r
          + int (length (py_slice frames (start_idx r) (end_idx r + 1))) - 1}"
    by simp
  with length_py_slice [OF assms(3,4), of frames] show ?thesis by auto
qed

lemma dict_keys_update: "dict_keys (dict_update d e) = dict_keys d \<union> dict_keys e"
proof -
  have "dict_keys (fold (\<lambda>(k, v) acc. dict_set acc k v) e d) = dict_keys d \<union> fst ` set e"
    by (induction e arbitrary: d) (auto simp: dict_keys_set)
  then show ?thesis by (simp add: dict_update_def dict_keys_def)
qed

lemma clip_body_fixed:
  assumes "clip_body u p frames ptype False item st = Inr st'" and "well_behaved p"
    and "0 \<le> start_idx (snd item)" and "start_idx (snd item) \<le> end_idx (snd item)"
  shows "dict_keys (segments st')
           \<subseteq> dict_keys (segments st) \<union> {start_idx (snd item)..end_idx (snd item)}
         \<and> submitted st' = submitted st @ [item]"
proof -
  from assms(1) obtain segs where
    pvc: "process_video_clip p frames (fst item) (snd item) = Inr segs"
    and st': "segments st' = dict_update (segments st) segs"
      "submitted st' = submitted st @ [(fst item, snd item)]"
    by (auto simp: clip_body_def Let_def split: sum.splits)
  from process_video_clip_keys [OF pvc assms(2-4)] st' show ?thesis
    by (auto simp: dict_keys_update)
qed

lemma process_clips_fixed:
  assumes wb: "well_behaved p"
  shows "process_clips u p frames ptype False Inr gen st = Inr st' \<Longrightarrow>
         \<forall>item \<in> set gen. 0 \<le> start_idx (snd item) \<and> start_idx (snd item) \<le> end_idx (snd item) \<Longrightarrow>
         dict_keys (segments st')
           \<subseteq> dict_keys (segments st) \<union> (\<Union>item \<in> set gen. {start_idx (snd item)..end_idx (snd item)})
         \<and> submitted st' = submitted st @ gen"
proof (induction gen arbitrary: st)
  case Nil
  then show ?case by simp
next
  case (Cons item gen)
  from Cons.prems(1) obtain st1 where
    body: "clip_body u p frames ptype False item st = Inr st1"
    and rest: "process_clips u p frames ptype False Inr gen st1 = Inr st'"
    by (auto split: sum.splits)
  from Cons.prems(2) have "0 \<le> start_idx (snd item)" "start_idx (snd item) \<le> end_idx (snd item)"
    by simp_all
  from clip_body_fixed [OF body wb this] have
    k1: "dict_keys (segments st1)
           \<subseteq> dict_keys (segments st) \<union> {start_idx (snd item)..end_idx (snd item)}"
    and s1: "submitted st1 = submitted st @ [item]" by simp_all
  from Cons.IH [OF rest] Cons.prems(2) have
    k2: "dict_keys (segments st')
           \<subseteq> dict_keys (segments st1) \<union> (\<Union>item \<in> set gen. {start_idx (snd item)..end_idx (snd item)})"
    and s2: "submitted st' = submitted st1 @ gen" by simp_all
  from k1 k2 s1 s2 show ?case by auto
qed

text \<open>The start indices are the multiples of the clip length below the frame count.\<close>

lemma range_up_elem:
  "s \<in> set (range_up i n l) \<Longrightarrow> 0 < l \<and> i \<le> s \<and> s < n \<and> (s - i) mod l = 0"
proof (induction i n l rule: range_up.induct)
  case (1 i n step)
  show ?case
  proof (cases "0 < step \<and> i < n")
    case False
    with "1.prems" show ?thesis by (simp add: range_up.simps [of i n step])
  next
    case True
    with "1.prems" have "s = i \<or> s \<in> set (range_up (i + step) n step)"
      by (simp add: range_up.simps [of i n step])
    then show ?thesis
    proof
      assume "s = i"
      with True show ?thesis by simp
    next
      assume "s \<in> set (range_up (i + step) n step)"
      with "1.IH" True have "i + step \<le> s" "s < n" "(s - (i + step)) mod step = 0"
        by simp_all
      moreover have "(s - i) mod step = (s - (i + step)) mod step"
      proof -
        have "(s - i) mod step = ((s - (i + step)) + step) mod step" by simp
        also have "\<dots> = (s - (i + step)) mod step" by (rule mod_add_self2)
        finally show ?thesis .
      qed
      ultimately show ?thesis using True by simp
    qed
  qed
qed

lemma clip_starts_disjoint:
  assumes "s \<in> set (range_up 0 n l)" and "s' \<in> set (range_up 0 n l)"
    and "s \<le> f" and "f \<le> s + l - 1" and "s' \<le> f" and "f \<le> s' + l - 1"
  shows "s = s'"
proof -
  from range_up_elem [OF assms(1)] have l: "0 < l" and s: "s mod l = 0" by simp_all
  from range_up_elem [OF assms(2)] have s': "s' mod l = 0" by simp
  from s obtain k where k: "s = l * k" by (auto simp: mod_eq_0_iff_dvd)
  from s' obtain k' where k': "s' = l * k'" by (auto simp: mod_eq_0_iff_dvd)
  have d: "\<And>t j. t = l * j \<Longrightarrow> t \<le> f \<Longrightarrow> f \<le> t + l - 1 \<Longrightarrow> f div l = j"
  proof -
    fix t j
    assume t: "t = l * j" and "t \<le> f" and "f \<le> t + l - 1"
    then have r: "0 \<le> f - t" "f - t < l" by simp_all
    have "f div l = ((f - t) + j * l) div l" using t by (simp add: algebra_simps)
    also have "\<dots> = j + (f - t) div l" using l by simp
    also have "(f - t) div l = 0" using r by simp
    finally show "f div l = j" by simp
  qed
  from d [OF k assms(3,4)] have "f div l = k" .
  moreover from d [OF k' assms(5,6)] have "f div l = k'" .
  ultimately show ?thesis using k k' by simp
qed


lemma clip_range_at_bounds:
  "s \<in> set (range_up 0 n l) \<Longrightarrow>
   0 \<le> start_idx (clip_range_at n l s)
   \<and> start_idx (clip_range_at n l s) \<le> end_idx (clip_range_at n l s)
   \<and> end_idx (clip_range_at n l s) \<le> s + l - 1"
  using range_up_elem [of s 0 n l] by (simp add: clip_range_at_def)

text \<open>
  Claim C7. In fixed-length mode, take a clip range of the planner that contains no
  keyframe with an annotation. The planner warns about it and yields nothing for it; it
  is not among the clips submitted to \<^verbatim>\<open>process_video_clip\<close>; and, when the
  segmentation model yields only frames of the clip staged for it, the segments of the
  video have no entry for any frame ordinal of that range.
\<close>

theorem skipped_clip_absent:
  assumes run: "process_singel_video u p coco plog frames ptype clip_length False = Inr st"
    and plan: "get_clip_prompts u coco frames ptype clip_length 0 = Inr (gen, ws, c)"
    and wb: "well_behaved p"
    and r: "r \<in> set (clip_ranges (int (length frames))
                     (case clip_length of None \<Rightarrow> int (length frames) | Some k \<Rightarrow> k))"
    and no: "\<not> has_annotated_keyframe coco frames r"
  shows "r \<in> fst ` set ws \<and> r \<notin> snd ` set gen \<and> r \<notin> snd ` set (submitted st)
       \<and> (\<forall>f. start_idx r \<le> f \<and> f \<le> end_idx r \<longrightarrow> dict_get (segments st) f = None)"
proof -
  let ?n = "int (length frames)"
  let ?l = "case clip_length of None \<Rightarrow> ?n | Some k \<Rightarrow> k"
  from r obtain s where s: "s \<in> set (range_up 0 ?n ?l)" and rs: "r = clip_range_at ?n ?l s"
    by (auto simp: clip_ranges_def)
  from range_up_elem [OF s] have l: "0 < ?l" by simp
  with plan have loop: "clip_loop u coco frames ptype ?l (range_up 0 ?n ?l) 0 = Inr (gen, ws, c)"
    by (auto simp: get_clip_prompts_def py_range_def Let_def split: if_splits)
  from clip_loop_ranges [OF loop] have
    g: "map snd gen = filter (has_annotated_keyframe coco frames) (clip_ranges ?n ?l)"
    and w: "map fst ws = filter (\<lambda>r. \<not> has_annotated_keyframe coco frames r)
                           (clip_ranges ?n ?l)"
    by (simp_all add: clip_ranges_def)
  have in_ws: "r \<in> fst ` set ws"
  proof -
    from r no have "r \<in> set (map fst ws)" unfolding w by simp
    then show ?thesis by simp
  qed
  have gen_has: "\<And>item. item \<in> set gen \<Longrightarrow>
      has_annotated_keyframe coco frames (snd item) \<and> snd item \<in> set (clip_ranges ?n ?l)"
  proof -
    fix item assume "item \<in> set gen"
    then have "snd item \<in> set (map snd gen)" by simp
    then show "has_annotated_keyframe coco frames (snd item) \<and> snd item \<in> set (clip_ranges ?n ?l)"
      unfolding g by simp
  qed
  have not_gen: "r \<notin> snd ` set gen"
    using gen_has no by auto
  from run plan have clips:
    "process_clips u p frames ptype False Inr gen
       \<lparr>segments = [], previous_frame_mask_prompt = None, PROMPT_INFO = plog, submitted = []\<rparr>
     = Inr st"
    by (simp add: process_singel_video_def)
  have bounds: "\<forall>item \<in> set gen. 0 \<le> start_idx (snd item)
                  \<and> start_idx (snd item) \<le> end_idx (snd item)"
  proof
    fix item assume "item \<in> set gen"
    from gen_has [OF this] obtain s' where "s' \<in> set (range_up 0 ?n ?l)"
      and "snd item = clip_range_at ?n ?l s'"
      by (auto simp: clip_ranges_def)
    with clip_range_at_bounds [of s' ?n ?l]
    show "0 \<le> start_idx (snd item) \<and> start_idx (snd item) \<le> end_idx (snd item)"
      by simp
  qed
  from process_clips_fixed [OF wb clips bounds] have
    keys: "dict_keys (segments st)
             \<subseteq> (\<Union>item \<in> set gen. {start_idx (snd item)..end_idx (snd item)})"
    and sub: "submitted st = gen"
    by (simp_all add: dict_keys_def)
  have absent: "\<forall>f. start_idx r \<le> f \<and> f \<le> end_idx r \<longrightarrow> dict_get (segments st) f = None"
  proof (intro allI impI)
    fix f assume f: "start_idx r \<le> f \<and> f \<le> end_idx r"
    have "f \<notin> dict_keys (segments st)"
    proof
      assume "f \<in> dict_keys (segments st)"
      with keys obtain item where item: "item \<in> set gen"
        and fi: "start_idx (snd item) \<le> f" "f \<le> end_idx (snd item)"
        by auto
      from gen_has [OF item] obtain s' where s': "s' \<in> set (range_up 0 ?n ?l)"
        and is': "snd item = clip_range_at ?n ?l s'"
        by (auto simp: clip_ranges_def)
      from f rs clip_range_at_bounds [OF s] have a: "s \<le> f" "f \<le> s + ?l - 1"
        by (simp_all add: clip_range_at_def)
      from fi is' clip_range_at_bounds [OF s'] have b: "s' \<le> f" "f \<le> s' + ?l - 1"
        by (simp_all add: clip_range_at_def)
      from clip_starts_disjoint [OF s s' a b] rs is' have "snd item = r" by simp
      with gen_has [OF item] no show False by simp
    qed
    then show "dict_get (segments st) f = None" by (simp add: dict_get_None_iff)
  qed
  from in_ws not_gen sub absent show ?thesis by simp
qed



lemma sweep_bounds:
  "y \<in> set (sweep i fs ids l) \<Longrightarrow> i \<le> fst y \<and> fst y < i + int (length fs)"
  by (induction fs arbitrary: i) fastforce+

lemma well_behaved_p0: "well_behaved p0"
  unfolding well_behaved_def p0_def
  by (auto dest: sweep_bounds)



lemma staged6: "py_slice frames6 0 3 = take 3 frames6"
  by (simp add: py_slice_def slice_bound_def frames6_def)

lemma pvc_coco6:
  "process_video_clip p0 frames6 (fst (hd plan6)) (snd (hd plan6)) = Inr segs3"
  by (simp add: plan6_def process_video_clip_def add_prompt_def staged6
         predict_st3 [unfolded st3_def])

lemma body_coco6:
  "clip_body u0 p0 frames6 ''points'' False (hd plan6)
          \<lparr>segments = [], previous_frame_mask_prompt = None, PROMPT_INFO = [], submitted = []\<rparr>
        = Inr \<lparr>segments = segs3, previous_frame_mask_prompt = None,
               PROMPT_INFO = fst (hd plan6), submitted = [hd plan6]\<rparr>"
    by (simp add: clip_body_def pvc_coco6 dict_update_def)
       (simp add: segs3_def dict_set_def)


lemma run_coco6:
  "process_singel_video u0 p0 coco6 [] frames6 ''points'' (Some 3) False
     = Inr \<lparr>segments = segs3, previous_frame_mask_prompt = None,
            PROMPT_INFO = concat (map fst plan6), submitted = plan6\<rparr>"
proof -
  have e: "[hd plan6] = plan6" by (simp add: plan6_def)
  have f: "fst (hd plan6) = concat (map fst plan6)" by (simp add: plan6_def)
  have "process_clips u0 p0 frames6 ''points'' False Inr [hd plan6]
          \<lparr>segments = [], previous_frame_mask_prompt = None, PROMPT_INFO = [], submitted = []\<rparr>
        = Inr \<lparr>segments = segs3, previous_frame_mask_prompt = None,
               PROMPT_INFO = fst (hd plan6), submitted = [hd plan6]\<rparr>"
    by (simp add: body_coco6)
  then have "process_clips u0 p0 frames6 ''points'' False Inr plan6
          \<lparr>segments = [], previous_frame_mask_prompt = None, PROMPT_INFO = [], submitted = []\<rparr>
        = Inr \<lparr>segments = segs3, previous_frame_mask_prompt = None,
               PROMPT_INFO = concat (map fst plan6), submitted = plan6\<rparr>"
    by (simp only: e f)
  then show ?thesis
    by (simp add: process_singel_video_def clip_prompts_coco6)
qed

lemma clip_ranges_6_3:
  "clip_ranges 6 3 = [\<lparr>start_idx = 0, end_idx = 2\<rparr>, \<lparr>start_idx = 3, end_idx = 5\<rparr>]"
  by (simp add: clip_ranges_def range_up.simps clip_range_at_def)

lemma no_keyframe_coco6:
  "\<not> has_annotated_keyframe coco6 frames6 \<lparr>start_idx = 3, end_idx = 5\<rparr>"
  by (simp add: has_annotated_keyframe_def frames6_def frame_at_def)

theorem skipped_clip_absent_witness:
  "process_singel_video u0 p0 coco6 [] frames6 ''points'' (Some 3) False
     = Inr \<lparr>segments = segs3, previous_frame_mask_prompt = None,
            PROMPT_INFO = concat (map fst plan6), submitted = plan6\<rparr>
   \<and> get_clip_prompts u0 coco6 frames6 ''points'' (Some 3) 0
       = Inr (plan6, [(\<lparr>start_idx = 3, end_idx = 5\<rparr>, 1)], 1)
   \<and> well_behaved p0
   \<and> clip_ranges (int (length frames6)) 3
       = [\<lparr>start_idx = 0, end_idx = 2\<rparr>, \<lparr>start_idx = 3, end_idx = 5\<rparr>]
   \<and> \<not> has_annotated_keyframe coco6 frames6 \<lparr>start_idx = 3, end_idx = 5\<rparr>
   \<and> \<lparr>start_idx = 3, end_idx = 5\<rparr> \<notin> snd ` set plan6
   \<and> dict_get segs3 3 = None \<and> dict_get segs3 4 = None \<and> dict_get segs3 5 = None"
proof -
  have n: "int (length frames6) = 6" by (simp add: frames6_def)
  have r: "\<lparr>start_idx = 3, end_idx = 5\<rparr>
             \<in> set (clip_ranges (int (length frames6))
                      (case Some 3 of None \<Rightarrow> int (length frames6) | Some k \<Rightarrow> k))"
    by (simp add: n clip_ranges_6_3)
  note inst = skipped_clip_absent [OF run_coco6 clip_prompts_coco6 well_behaved_p0 r
      no_keyframe_coco6]
  then have "\<lparr>start_idx = 3, end_idx = 5\<rparr> \<notin> snd ` set plan6"
    and "dict_get segs3 3 = None" "dict_get segs3 4 = None" "dict_get segs3 5 = None"
    by simp_all
  with run_coco6 clip_prompts_coco6 well_behaved_p0 clip_ranges_6_3 no_keyframe_coco6 n
  show ?thesis by simp
qed

section \<open>Video Orchestrator: category-growth runs\<close>

lemma clip_body_submitted:
  "clip_body u p frames ptype vc item st = Inr st' \<Longrightarrow>
   submitted st' =
     submitted st @ [(fst item @ (if vc then (case previous_frame_mask_prompt st of
                                               None \<Rightarrow> [] | Some q \<Rightarrow> [q]) else []),
                      snd item)]"
  by (auto simp: clip_body_def Let_def split: sum.splits option.splits if_splits)

lemma cat_planner_short:
  "get_prompts_from_categories u coco frames c = Inr (gen, c') \<Longrightarrow> length gen \<le> 1"
  by (auto simp: get_prompts_from_categories_def split: sum.splits if_splits)

text \<open>A category-growth run that returns has submitted the tuples of the planner as they
  are, and at most one of them: no prompt is ever carried into a following clip.\<close>

lemma category_growth_single_clip:
  assumes run: "process_singel_video u p coco plog frames ptype clip_length True = Inr st"
    and plan: "get_prompts_from_categories u coco frames 0 = Inr (gen, c)"
  shows "map Inr (submitted st) = map narrow_item gen \<and> length (submitted st) \<le> 1"
proof -
  let ?st0 = "\<lparr>segments = [], previous_frame_mask_prompt = None, PROMPT_INFO = plog,
                submitted = []\<rparr>"
  from run plan have clips: "process_clips u p frames ptype True narrow_item gen ?st0 = Inr st"
    by (simp add: process_singel_video_def)
  from cat_planner_short [OF plan] have "gen = [] \<or> (\<exists>x. gen = [x])"
    by (cases gen) auto
  then show ?thesis
  proof
    assume "gen = []"
    with clips show ?thesis by auto
  next
    assume "\<exists>x. gen = [x]"
    then obtain x where x: "gen = [x]" ..
    with clips obtain item where n: "narrow_item x = Inr item"
      and body: "clip_body u p frames ptype True item ?st0 = Inr st"
      by (auto split: sum.splits)
    from clip_body_submitted [OF body] have "submitted st = [item]"
      by (cases item) simp
    with x n show ?thesis by simp
  qed
qed

text \<open>
  Claim C3 fails on the code: a clip of a category-growth run is never followed by
  another one. With two keyframes that introduce categories, \<^verbatim>\<open>process_singel_video\<close>
  raises \<^verbatim>\<open>TypeError\<close> at the planner's two-argument \<^verbatim>\<open>append\<close> before any clip is
  processed, here with prompt kind \<open>mask\<close>, so no prompt is carried into a second clip.
\<close>

theorem carried_prompt_never_reached:
  "introducers coco3 frames3 {} = [frame_at 0 True, frame_at 1 True]
   \<and> process_singel_video u0 p0 coco3 [] frames3 ''mask'' None True = Inl TypeError"
proof -
  have "2 \<le> length (introducers coco3 frames3 {})"
    by (simp add: introducers_coco3)
  from cats_loop_None_error [OF this, of u0 None 0]
  show ?thesis
    by (simp add: get_prompts_from_categories_def process_singel_video_def introducers_coco3)
qed


section \<open>Prompt frame selection\<close>

lemma find_prompt_frame_first:
  "find_prompt_frame coco frames r =
     (case filter (qualifies coco r) frames of [] \<Rightarrow> None | f # fs \<Rightarrow> Some f)"
  by (induction frames) (auto simp: qualifies_def)

lemma find_prompt_frame_sorted:
  "sorted (map order_in_video frames) \<Longrightarrow> find_prompt_frame coco frames r = Some f \<Longrightarrow>
   qualifies coco r f \<and> (\<forall>g \<in> set frames. qualifies coco r g \<longrightarrow> order_in_video f \<le> order_in_video g)"
proof (induction frames)
  case Nil
  then show ?case by simp
next
  case (Cons x frames)
  show ?case
  proof (cases "qualifies coco r x")
    case True
    with Cons.prems have "f = x" by (simp add: qualifies_def)
    with True Cons.prems(1) show ?thesis by auto
  next
    case False
    with Cons.prems have "find_prompt_frame coco frames r = Some f"
      by (auto simp: qualifies_def split: if_splits)
    with Cons.IH Cons.prems(1) False show ?thesis by auto
  qed
qed

text \<open>
  Claim C8 fails on the code: \<^verbatim>\<open>find_prompt_frame\<close> returns the first qualifying frame
  in list order, and \<^verbatim>\<open>process_all_videos\<close> passes the frames in dataset order, without
  the sort by \<^verbatim>\<open>order_in_video\<close> that \<^verbatim>\<open>save_as_coco_format\<close> applies. With the image
  records of a video listed as ordinals 1, 0, 2, the keyframe of ordinal 1 is selected
  for the range \<open>[0, 2]\<close> although the keyframe of ordinal 0 qualifies.
\<close>

theorem prompt_frame_not_smallest:
  "get_dicts_by_video_id (images coco3r) 1 = [frame_at 1 True, frame_at 0 True, frame_at 2 False]
   \<and> find_prompt_frame coco3r (get_dicts_by_video_id (images coco3r) 1)
         \<lparr>start_idx = 0, end_idx = 2\<rparr> = Some (frame_at 1 True)
   \<and> qualifies coco3r \<lparr>start_idx = 0, end_idx = 2\<rparr> (frame_at 0 True)
   \<and> order_in_video (frame_at 0 True) < order_in_video (frame_at 1 True)"
  by (simp add: get_dicts_by_video_id_def coco3r_def qualifies_def frame_anns_def)
     (simp add: frame_at_def ann_on_def)

section \<open>Mask Reassembler: the records of a frame\<close>

lemma merge_loop_last_score:
  "items \<noteq> [] \<Longrightarrow>
   snd (merge_loop n items merged score) = Some (seg_score (snd (last items)))"
proof (induction items arbitrary: merged score)
  case Nil
  then show ?case by simp
next
  case (Cons x items)
  obtain key mask_info where x: "x = (key, mask_info)" by (cases x)
  show ?case
  proof (cases items)
    case Nil
    with x show ?thesis by (simp add: Let_def)
  next
    case (Cons y ys)
    with Cons.IH x show ?thesis by (simp add: Let_def)
  qed
qed

lemma merge_loop_get:
  "dict_get (fst (merge_loop n items merged score)) c =
     (if filter (\<lambda>(k, s). remainder n k = c) items \<noteq> []
      then Some ((case dict_get merged c of None \<Rightarrow> {} | Some m \<Rightarrow> m) \<union> category_mask n items c)
      else dict_get merged c)"
proof (induction items arbitrary: merged score)
  case Nil
  then show ?case by simp
next
  case (Cons x items)
  obtain key mask_info where x: "x = (key, mask_info)" by (cases x)
  show ?case
  proof (cases "remainder n key = c")
    case True
    with x Cons.IH show ?thesis
      by (auto simp: Let_def dict_get_set category_mask_def filter_empty_conv split: option.splits)
  next
    case False
    with x Cons.IH show ?thesis
      by (auto simp: Let_def dict_get_set category_mask_def filter_empty_conv split: option.splits)
  qed
qed

lemma merge_loop_distinct:
  "distinct (map fst merged) \<Longrightarrow> distinct (map fst (fst (merge_loop n items merged score)))"
proof (induction items arbitrary: merged score)
  case Nil
  then show ?case by simp
next
  case (Cons x items)
  obtain key mask_info where x: "x = (key, mask_info)" by (cases x)
  from Cons.prems have "\<And>v. distinct (map fst (dict_set merged (remainder n key) v))"
    by (simp add: dict_set_def distinct_update)
  with x Cons.IH show ?case
    by (simp add: Let_def split: option.splits)
qed

lemma emit_loop_records:
  "emit_loop u f merged (Some sc) =
     Inr (map (\<lambda>(key, m). \<lparr>pred_image_id = frame_id f, pred_category_id = key,
                             pred_segmentation = m, pred_bbox = mask_to_bbox u m,
                             pred_iscrowd = 0, pred_score = sc\<rparr>)
            (filter (\<lambda>(key, m). m \<noteq> {}) merged))"
proof (induction merged)
  case Nil
  then show ?case by simp
next
  case (Cons x merged)
  obtain key m where "x = (key, m)" by (cases x)
  with Cons show ?case by simp
qed

text \<open>The records of one keyframe whose segment is not empty: one for every category
  whose merged mask is not empty, with the union of the masks of the category, and all
  with the score of the last instance of the frame.\<close>

lemma frame_records:
  assumes "seg \<noteq> []"
    and "merged = fst (merge_loop n seg [] score)"
  shows "emit_loop u f merged (snd (merge_loop n seg [] score)) =
           Inr (map (\<lambda>(key, m). \<lparr>pred_image_id = frame_id f, pred_category_id = key,
                                   pred_segmentation = m, pred_bbox = mask_to_bbox u m,
                                   pred_iscrowd = 0,
                                   pred_score = seg_score (snd (last seg))\<rparr>)
                  (filter (\<lambda>(key, m). m \<noteq> {}) merged))"
    and "distinct (map fst merged)"
    and "\<And>c m. dict_get merged c = Some m \<Longrightarrow> m = category_mask n seg c"
proof -
  from assms(1) have "snd (merge_loop n seg [] score) = Some (seg_score (snd (last seg)))"
    by (rule merge_loop_last_score)
  then show "emit_loop u f merged (snd (merge_loop n seg [] score)) =
           Inr (map (\<lambda>(key, m). \<lparr>pred_image_id = frame_id f, pred_category_id = key,
                                   pred_segmentation = m, pred_bbox = mask_to_bbox u m,
                                   pred_iscrowd = 0,
                                   pred_score = seg_score (snd (last seg))\<rparr>)
                  (filter (\<lambda>(key, m). m \<noteq> {}) merged))"
    by (simp add: emit_loop_records)
  show "distinct (map fst merged)"
    unfolding assms(2) by (rule merge_loop_distinct) simp
  fix c m assume "dict_get merged c = Some m"
  then show "m = category_mask n seg c"
    unfolding assms(2) merge_loop_get by (simp add: dict_get_def split: if_splits)
qed


text \<open>
  Claim C2 fails on the code: the local \<^verbatim>\<open>score\<close> is assigned in the merging loop and
  read in the loop that emits the records, so every record of a frame carries the score of
  the last instance of the frame, of whatever category. Here the only instance of category
  1 has score \<open>9/10\<close> and the record of category 1 has score \<open>1/2\<close>, the score of the
  instance of category 2.
\<close>

theorem score_of_other_category:
  "save_as_coco_format u0 coco1 [1] segs1 None
     = Inr [\<lparr>pred_image_id = 100, pred_category_id = 1, pred_segmentation = {(0, 0)},
             pred_bbox = [], pred_iscrowd = 0, pred_score = 1 / 2\<rparr>,
            \<lparr>pred_image_id = 100, pred_category_id = 2, pred_segmentation = {(1, 1)},
             pred_bbox = [], pred_iscrowd = 0, pred_score = 1 / 2\<rparr>]"
  by (simp add: save_as_coco_format_def coco1_def segs1_def dict_get_def
        sort_dicts_by_order_def get_dicts_by_video_id_def frame_at_def remainder_def
        dict_set_def logical_or_reduce_def u0_def)

end
